theory Spec2Isabelle
  imports Complex_Main "HOL-Library.AList"
begin

section \<open>Data model\<close>

text \<open>
  The node classes of \<^verbatim>\<open>nodes.py\<close> are embedded with explicit state passing: every
  method takes the node and returns the node it leaves behind, together with the
  exception that escaped it, if any. A Python exception does not roll the object back,
  so the state reached at the raise is part of the result.
\<close>

datatype py_error = KeyError | TypeError | AttributeError | JSONDecodeError | UnicodeDecodeError

record transaction =
  tx_sender :: string
  tx_recipient :: string
  tx_amount :: int
  tx_previous_hash :: string
  tx_timestamp :: real

record header =
  index :: int
  previous_hash :: string
  timestamp :: real
  merkle_root :: string
  block_proof :: int

record block =
  header :: header
  body :: "transaction list"

text \<open>
  The JSON object carried in the \<^verbatim>\<open>message\<close> field of an envelope. A field is
  \<open>None\<close> when the key is absent from the object. Only the keys that the handlers of
  \<^verbatim>\<open>Node\<close> and \<^verbatim>\<open>BlockchainNode\<close> read or write are kept, each at the type the
  handlers use it at.
\<close>

record payload =
  p_height :: "int option"
  p_chain :: "block list option"
  p_tx_info :: "(string \<times> string) list option"
  p_block :: "block option"
  p_headers :: "header list option"

definition no_keys :: payload where
  "no_keys = \<lparr>p_height = None, p_chain = None, p_tx_info = None, p_block = None,
     p_headers = None\<rparr>"

text \<open>
  The \<^verbatim>\<open>message\<close> string of an envelope: the empty string, a string that
  \<^verbatim>\<open>json.loads\<close> rejects, a string that it reads as a JSON value other than an object
  (an array, a string, a number, a boolean or \<^verbatim>\<open>null\<close>), or the serialisation of a
  payload object.
\<close>

datatype message = Blank | Unparseable | NonObject | Dumps payload

text \<open>What \<^verbatim>\<open>json.loads\<close> returns on the message: a dictionary, or a value that is none.\<close>

datatype loaded = NotADict | Dict payload

record envelope =
  e_type :: string
  e_identifier :: string
  e_message :: message
  e_target :: string

text \<open>
  A byte frame taken from the inbound queue, by what \<^verbatim>\<open>json.loads(packet.decode())\<close>
  makes of it:
  \<^item> \<open>NotUTF8\<close>: the bytes are not UTF-8, \<^verbatim>\<open>decode\<close> raises;
  \<^item> \<open>Garbled\<close>: the text is not JSON, \<^verbatim>\<open>json.loads\<close> raises;
  \<^item> \<open>NotAnObject\<close>: the text is a JSON array, string, number, boolean or \<^verbatim>\<open>null\<close>;
  \<^item> \<open>NoTarget\<close>: a JSON object without the key \<^verbatim>\<open>target\<close>;
  \<^item> \<open>UnsizedTarget\<close>: an object whose \<^verbatim>\<open>target\<close> is \<^verbatim>\<open>null\<close>, a number or a boolean;
  \<^item> \<open>ContainerTarget\<close>: an object whose \<^verbatim>\<open>target\<close> is a non-empty array or object;
  \<^item> \<open>Incomplete t\<close>: an object whose \<^verbatim>\<open>target\<close> is the string \<open>t\<close> and which lacks one
    of the keys \<^verbatim>\<open>type\<close>, \<^verbatim>\<open>identifier\<close> and \<^verbatim>\<open>message\<close>;
  \<^item> \<open>Framed d\<close>: an object with the four keys, the envelope \<open>d\<close>.
  An empty array or object as \<^verbatim>\<open>target\<close> has length 0 like the empty string, and no
  handler reads the target: such a frame is the one with the target \<^verbatim>\<open>''\<close>. The values
  under \<^verbatim>\<open>type\<close>, \<^verbatim>\<open>identifier\<close> and \<^verbatim>\<open>message\<close> are taken to be strings.
\<close>

datatype packet =
    NotUTF8
  | Garbled
  | NotAnObject
  | NoTarget
  | UnsizedTarget
  | ContainerTarget
  | Incomplete string
  | Framed envelope

record peer =
  peer_identifier :: string
  lastrecv :: real
  lastsend :: real
  height :: "int option"

text \<open>
  The node object. \<open>peers\<close> is the Python set in its iteration order, \<open>peer_info\<close> and
  \<open>tx_info\<close> are dictionaries as association lists, \<open>outbox\<close> lists the frames handed to
  \<^verbatim>\<open>self.network.send\<close>, oldest first. \<^verbatim>\<open>time()\<close> is the environment: \<open>clock s k\<close>
  is the reading that the \<open>k\<close>-th call returns and \<open>ticks s\<close> counts the calls made.
  Readings are real numbers of seconds; the rounding of floating point is left out.
\<close>

record node =
  "identifier" :: string
  chain :: "block list"
  tx_info :: "(string \<times> string) list"
  peer_info :: "(string \<times> peer) list"
  peers :: "string list"
  keep_listening :: bool
  ready :: bool
  synced :: bool
  outbox :: "envelope list"
  clock :: "nat \<Rightarrow> real"
  ticks :: nat

type_synonym outcome = "py_error option \<times> node"

text \<open>Sequencing of two statements: an exception raised by the first skips the second.\<close>

definition then_do :: "outcome \<Rightarrow> (node \<Rightarrow> outcome) \<Rightarrow> outcome" where
  "then_do r f = (case r of (None, s) \<Rightarrow> f s | (Some e, s) \<Rightarrow> (Some e, s))"

section \<open>Class Node\<close>

text \<open>
  \<^verbatim>\<open>self.peer_info[p]['lastsend'] = time()\<close> and its \<^verbatim>\<open>lastrecv\<close> and \<^verbatim>\<open>height\<close>
  siblings. Python evaluates the right-hand side first, then looks the key up.
\<close>

definition set_lastsend :: "node \<Rightarrow> string \<Rightarrow> outcome" where
  "set_lastsend s p =
     (let t = clock s (ticks s); s1 = s\<lparr>ticks := Suc (ticks s)\<rparr> in
      case map_of (peer_info s1) p of
        None \<Rightarrow> (Some KeyError, s1)
      | Some info \<Rightarrow>
          (None, s1\<lparr>peer_info := AList.update p (info\<lparr>lastsend := t\<rparr>) (peer_info s1)\<rparr>))"

definition set_lastrecv :: "node \<Rightarrow> string \<Rightarrow> outcome" where
  "set_lastrecv s p =
     (let t = clock s (ticks s); s1 = s\<lparr>ticks := Suc (ticks s)\<rparr> in
      case map_of (peer_info s1) p of
        None \<Rightarrow> (Some KeyError, s1)
      | Some info \<Rightarrow>
          (None, s1\<lparr>peer_info := AList.update p (info\<lparr>lastrecv := t\<rparr>) (peer_info s1)\<rparr>))"

definition set_height :: "node \<Rightarrow> string \<Rightarrow> int option \<Rightarrow> outcome" where
  "set_height s p h =
     (case map_of (peer_info s) p of
        None \<Rightarrow> (Some KeyError, s)
      | Some info \<Rightarrow>
          (None, s\<lparr>peer_info := AList.update p (info\<lparr>height := h\<rparr>) (peer_info s)\<rparr>))"

text \<open>The loop \<^verbatim>\<open>for peer in self.peers: self.peer_info[peer]['lastsend'] = time()\<close>.\<close>

fun touch_all :: "string list \<Rightarrow> node \<Rightarrow> outcome" where
  "touch_all [] s = (None, s)"
| "touch_all (p # ps) s = then_do (set_lastsend s p) (touch_all ps)"

definition send :: "node \<Rightarrow> string \<Rightarrow> message \<Rightarrow> string \<Rightarrow> outcome" where
  "send s type msg target =
     (let data = \<lparr>e_type = type, e_identifier = identifier s, e_message = msg,
                  e_target = target\<rparr>;
          s1 = s\<lparr>outbox := outbox s @ [data]\<rparr>
      in if target \<noteq> [] then set_lastsend s1 target else touch_all (peers s1) s1)"

definition register_peer :: "node \<Rightarrow> string \<Rightarrow> int option \<Rightarrow> bool \<times> node" where
  "register_peer s ident h =
     (if ident \<notin> set (peers s) then
        (True, s\<lparr>peers := peers s @ [ident],
                peer_info := AList.update ident
                  \<lparr>peer_identifier = ident, lastrecv = clock s (ticks s), lastsend = 0,
                   height = h\<rparr> (peer_info s),
                ticks := Suc (ticks s)\<rparr>)
      else (False, s))"

text \<open>\<^verbatim>\<open>json.loads(data['message']) if data['message'] else {}\<close>\<close>

definition loads_message :: "message \<Rightarrow> py_error + loaded" where
  "loads_message m =
     (case m of
        Blank \<Rightarrow> Inr (Dict no_keys)
      | Unparseable \<Rightarrow> Inl JSONDecodeError
      | NonObject \<Rightarrow> Inr NotADict
      | Dumps p \<Rightarrow> Inr (Dict p))"

text \<open>
  \<^verbatim>\<open>message.get(key)\<close>: a value that is not a dictionary has no method \<^verbatim>\<open>get\<close>. The key
  is given by the field of the payload that holds it.
\<close>

definition get_key :: "(payload \<Rightarrow> 'a option) \<Rightarrow> loaded \<Rightarrow> py_error + 'a option" where
  "get_key key msg = (case msg of NotADict \<Rightarrow> Inl AttributeError | Dict p \<Rightarrow> Inr (key p))"

text \<open>
  \<^verbatim>\<open>message[key]\<close>: a value that is not a dictionary cannot be indexed by a string, a
  dictionary without the key raises \<^verbatim>\<open>KeyError\<close>.
\<close>

definition item :: "(payload \<Rightarrow> 'a option) \<Rightarrow> loaded \<Rightarrow> py_error + 'a" where
  "item key msg =
     (case msg of
        NotADict \<Rightarrow> Inl TypeError
      | Dict p \<Rightarrow> (case key p of None \<Rightarrow> Inl KeyError | Some v \<Rightarrow> Inr v))"

definition Node_handle_data :: "node \<Rightarrow> envelope \<Rightarrow> outcome" where
  "Node_handle_data s data =
     (let msg_type = e_type data; sender = e_identifier data in
      case loads_message (e_message data) of
        Inl e \<Rightarrow> (Some e, s)
      | Inr msg \<Rightarrow>
          then_do
            (if msg_type = ''version'' then
               (case get_key p_height msg of
                  Inl e \<Rightarrow> (Some e, s)
                | Inr h \<Rightarrow>
                    (case register_peer s sender h of
                       (True, s1) \<Rightarrow>
                         then_do (send s1 ''verack'' Blank sender)
                           (\<lambda>s2. send s2 ''version''
                              (Dumps (no_keys\<lparr>p_height := Some (int (length (chain s2)))\<rparr>))
                              sender)
                     | (False, s1) \<Rightarrow> (None, s1)))
             else if msg_type = ''verack'' then (None, s\<lparr>ready := True\<rparr>)
             else (None, s))
            (\<lambda>s3. if ready s3 then
                     (if msg_type = ''heartbeat'' then send s3 ''heartbeatack'' Blank sender
                      else (None, s3))
                   else (None, s3)))"

text \<open>
  \<^verbatim>\<open>recv\<close> calls \<^verbatim>\<open>self.handle_data\<close>, which each subclass overrides: the handler is
  the first argument. Line 103 raises on \<open>NotUTF8\<close> and \<open>Garbled\<close>. Line 106 raises on
  \<^verbatim>\<open>data['target']\<close> when the value is not an object or has no such key, and on \<^verbatim>\<open>len\<close>
  when the target has no length; a non-empty array or object differs from the
  identifier, so the frame is filtered out. Every \<^verbatim>\<open>handle_data\<close> of the module begins
  with lines 120 to 122 of the base class, which read the keys \<^verbatim>\<open>type\<close>, \<^verbatim>\<open>identifier\<close>
  and \<^verbatim>\<open>message\<close>: a frame that lacks one raises \<^verbatim>\<open>KeyError\<close> there, once it has passed
  the filter.
\<close>

definition recv :: "(node \<Rightarrow> envelope \<Rightarrow> outcome) \<Rightarrow> node \<Rightarrow> packet \<Rightarrow> outcome" where
  "recv handle_data s packet =
     (case packet of
        NotUTF8 \<Rightarrow> (Some UnicodeDecodeError, s)
      | Garbled \<Rightarrow> (Some JSONDecodeError, s)
      | NotAnObject \<Rightarrow> (Some TypeError, s)
      | NoTarget \<Rightarrow> (Some KeyError, s)
      | UnsizedTarget \<Rightarrow> (Some TypeError, s)
      | ContainerTarget \<Rightarrow> (None, s)
      | Incomplete target \<Rightarrow>
          if target \<noteq> [] \<and> target \<noteq> identifier s then (None, s) else (Some KeyError, s)
      | Framed data \<Rightarrow>
          if e_target data \<noteq> [] \<and> e_target data \<noteq> identifier s then (None, s)
          else then_do (handle_data s data)
                 (\<lambda>s1. let sender = e_identifier data in
                        if sender \<in> set (peers s1) then set_lastrecv s1 sender
                        else (None, s1)))"

text \<open>The idle sweep at the head of each iteration of \<^verbatim>\<open>run\<close>.\<close>

definition disconnected_peers :: "node \<Rightarrow> string list" where
  "disconnected_peers s =
     map fst (filter (\<lambda>(peer_id, info). lastsend info - lastrecv info > 60 * 30) (peer_info s))"

fun disconnect :: "string list \<Rightarrow> node \<Rightarrow> outcome" where
  "disconnect [] s = (None, s)"
| "disconnect (peer_id # rest) s =
     (if peer_id \<notin> fst ` set (peer_info s) then (Some KeyError, s)
      else let s1 = s\<lparr>peer_info := AList.delete peer_id (peer_info s)\<rparr> in
           if peer_id \<notin> set (peers s1) then (Some KeyError, s1)
           else disconnect rest (s1\<lparr>peers := removeAll peer_id (peers s1)\<rparr>))"

definition sweep :: "node \<Rightarrow> outcome" where
  "sweep s = disconnect (disconnected_peers s) s"

text \<open>
  The loop of \<^verbatim>\<open>run\<close>, over the sequence of things that happen to the thread, one per
  iteration: the queue yields a frame, the queue is empty, or the queue is empty and
  another thread calls \<^verbatim>\<open>stop\<close> while this one sleeps. The node has one link, hence
  one interface to poll. Only \<^verbatim>\<open>Empty\<close> is caught; any other exception leaves the
  loop. When the sequence is used up the loop is still polling, unless the flag is down.
\<close>

datatype event = Inbound packet | QueueEmpty | StopCalled

datatype run_status = Listening | Stopped | Died py_error

fun run :: "(node \<Rightarrow> envelope \<Rightarrow> outcome) \<Rightarrow> node \<Rightarrow> event list \<Rightarrow> run_status \<times> node" where
  "run handle_data s [] = (if keep_listening s then Listening else Stopped, s)"
| "run handle_data s (ev # evs) =
     (if \<not> keep_listening s then (Stopped, s)
      else case sweep s of
        (Some e, s1) \<Rightarrow> (Died e, s1)
      | (None, s1) \<Rightarrow>
          (case ev of
             Inbound packet \<Rightarrow>
               (case recv handle_data s1 packet of
                  (Some e, s2) \<Rightarrow> (Died e, s2)
                | (None, s2) \<Rightarrow> run handle_data s2 evs)
           | QueueEmpty \<Rightarrow> run handle_data s1 evs
           | StopCalled \<Rightarrow> run handle_data (s1\<lparr>keep_listening := False\<rparr>) evs))"

section \<open>Class BlockchainNode\<close>

text \<open>
  The loop of \<^verbatim>\<open>resolve_conflicts\<close>: the accumulator is \<^verbatim>\<open>(max_height, max_height_peer)\<close>.
  Comparing a height that is \<^verbatim>\<open>None\<close> with an integer raises \<^verbatim>\<open>TypeError\<close>.
\<close>

fun scan_peers ::
  "(string \<times> peer) list \<Rightarrow> string list \<Rightarrow> int \<times> string option \<Rightarrow> py_error + int \<times> string option"
where
  "scan_peers pinfo [] acc = Inr acc"
| "scan_peers pinfo (p # ps) (max_height, max_height_peer) =
     (case map_of pinfo p of
        None \<Rightarrow> scan_peers pinfo ps (max_height, max_height_peer)
      | Some info \<Rightarrow>
          (case height info of
             None \<Rightarrow> Inl TypeError
           | Some h \<Rightarrow>
               if h > max_height then scan_peers pinfo ps (h, Some p)
               else scan_peers pinfo ps (max_height, max_height_peer)))"

text \<open>
  \<^verbatim>\<open>if max_height_peer:\<close> tests the truth value of the identifier: \<^verbatim>\<open>None\<close> and the
  empty string both take the \<^verbatim>\<open>else\<close> branch.
\<close>

definition resolve_conflicts :: "node \<Rightarrow> outcome" where
  "resolve_conflicts s =
     (case scan_peers (peer_info s) (peers s) (int (length (chain s)), None) of
        Inl e \<Rightarrow> (Some e, s)
      | Inr (max_height, max_height_peer) \<Rightarrow>
          (case max_height_peer of
             None \<Rightarrow> (None, s\<lparr>synced := True\<rparr>)
           | Some p \<Rightarrow>
               if p \<noteq> [] then send s ''getdata'' Blank p
               else (None, s\<lparr>synced := True\<rparr>)))"

text \<open>\<^verbatim>\<open>{**a, **b}\<close>\<close>

definition merge_dicts :: "(string \<times> string) list \<Rightarrow> (string \<times> string) list \<Rightarrow> (string \<times> string) list" where
  "merge_dicts a b = foldl (\<lambda>d (k, v). AList.update k v d) a b"

text \<open>\<^verbatim>\<open>if sender in self.peers: self.peer_info[sender]['height'] = h\<close>\<close>

definition note_height :: "node \<Rightarrow> string \<Rightarrow> int option \<Rightarrow> outcome" where
  "note_height s sender h = (if sender \<in> set (peers s) then set_height s sender h else (None, s))"

text \<open>
  \<^verbatim>\<open>Blockchain.valid_chain\<close> is imported from a module that is not part of the sources
  at hand; the handler takes it as its first argument.
\<close>

definition BlockchainNode_handle_data :: "(block list \<Rightarrow> bool) \<Rightarrow> node \<Rightarrow> envelope \<Rightarrow> outcome" where
  "BlockchainNode_handle_data valid_chain s0 data =
     then_do (Node_handle_data s0 data) (\<lambda>s.
       let msg_type = e_type data; sender = e_identifier data in
       case loads_message (e_message data) of
         Inl e \<Rightarrow> (Some e, s)
       | Inr msg \<Rightarrow>
           if msg_type = ''getdata'' then
             send s ''chain''
               (Dumps (no_keys\<lparr>p_chain := Some (chain s), p_tx_info := Some (tx_info s)\<rparr>)) sender
           else if msg_type = ''getheaders'' then
             send s ''headers'' (Dumps (no_keys\<lparr>p_headers := Some (map header (chain s))\<rparr>)) sender
           else if msg_type = ''chain'' then
             (case item p_chain msg of
                Inl e \<Rightarrow> (Some e, s)
              | Inr new_chain \<Rightarrow>
                  (case item p_tx_info msg of
                     Inl e \<Rightarrow> (Some e, s)
                   | Inr new_tx_info \<Rightarrow>
                       then_do (note_height s sender (Some (int (length new_chain)))) (\<lambda>s1.
                         if valid_chain new_chain then
                           (None, s1\<lparr>chain := new_chain,
                                     tx_info := merge_dicts (tx_info s1) new_tx_info,
                                     synced := True\<rparr>)
                         else resolve_conflicts s1)))
           else if msg_type = ''addblock'' then
             (case item p_block msg of
                Inl e \<Rightarrow> (Some e, s)
              | Inr new_block \<Rightarrow>
                  (case item p_height msg of
                     Inl e \<Rightarrow> (Some e, s)
                   | Inr h \<Rightarrow>
                       (case item p_tx_info msg of
                          Inl e \<Rightarrow> (Some e, s)
                        | Inr new_tx_info \<Rightarrow>
                            then_do (note_height s sender (Some h)) (\<lambda>s1.
                              let new_chain = chain s1 @ [new_block] in
                              if valid_chain new_chain then
                                (None, s1\<lparr>chain := new_chain,
                                          tx_info := merge_dicts (tx_info s1) new_tx_info\<rparr>)
                              else resolve_conflicts s1))))
           else (None, s))"

section \<open>Class MinerNode\<close>

text \<open>
  \<^verbatim>\<open>proof_of_work\<close>: the loop has no bound, so it is a partial function, a run that never
  leaves the loop being \<open>None\<close>. \<^verbatim>\<open>Blockchain.valid_proof\<close> is the first argument.
\<close>

partial_function (option) proof_search :: "(string \<Rightarrow> int \<Rightarrow> bool) \<Rightarrow> string \<Rightarrow> int \<Rightarrow> int option" where
  "proof_search valid_proof prev_hash proof' =
     (if valid_proof prev_hash proof' = False then proof_search valid_proof prev_hash (proof' + 1)
      else Some proof')"

definition proof_of_work :: "(string \<Rightarrow> int \<Rightarrow> bool) \<Rightarrow> string \<Rightarrow> int option" where
  "proof_of_work valid_proof prev_hash = proof_search valid_proof prev_hash 0"

section \<open>Consistency of the peer bookkeeping\<close>

text \<open>
  The node keeps its peers twice, as the set \<^verbatim>\<open>self.peers\<close> and as the keys of
  \<^verbatim>\<open>self.peer_info\<close>. \<open>in_step\<close> says that the two agree, and that neither repeats an
  element, as a set and the keys of a dictionary cannot. \<open>same_peers\<close> relates two nodes
  that know the same peers in the same order.
\<close>

definition in_step :: "node \<Rightarrow> bool" where
  "in_step s =
     (distinct (map fst (peer_info s)) \<and> distinct (peers s) \<and>
      set (map fst (peer_info s)) = set (peers s))"

definition same_peers :: "node \<Rightarrow> node \<Rightarrow> bool" where
  "same_peers s s' = (map fst (peer_info s') = map fst (peer_info s) \<and> peers s' = peers s)"

section \<open>Chain validation\<close>

text \<open>
  Modelled from the spec: the class \<^verbatim>\<open>Blockchain\<close> lives in the module \<^verbatim>\<open>blockchain\<close>,
  which is not among the sources. Its header hash, its proof-of-work predicate and its
  genesis block are the three fields of a validator.
\<close>

record validator =
  v_hash :: "header \<Rightarrow> string"
  v_valid_proof :: "string \<Rightarrow> int \<Rightarrow> bool"
  v_genesis :: block

text \<open>
  Modelled from the spec: \<^verbatim>\<open>valid_block(block, previous_block)\<close> is true iff
  \<^verbatim>\<open>block.index == previous_block.index + 1\<close>,
  \<^verbatim>\<open>block.previous_hash == hash(previous_block.header)\<close> and
  \<^verbatim>\<open>valid_proof(block.previous_hash, block.proof)\<close> holds.
\<close>

definition valid_block :: "validator \<Rightarrow> block \<Rightarrow> block \<Rightarrow> bool" where
  "valid_block B blk previous_block =
     (index (header blk) = index (header previous_block) + 1 \<and>
      previous_hash (header blk) = v_hash B (header previous_block) \<and>
      v_valid_proof B (previous_hash (header blk)) (block_proof (header blk)))"

text \<open>
  Modelled from the spec: \<^verbatim>\<open>valid_block(chain[i], chain[i-1])\<close> for all \<^verbatim>\<open>i\<close> from 1 on,
  walking the chain with the previous block in hand.
\<close>

fun valid_blocks_after :: "validator \<Rightarrow> block \<Rightarrow> block list \<Rightarrow> bool" where
  "valid_blocks_after B previous_block [] = True"
| "valid_blocks_after B previous_block (blk # rest) =
     (valid_block B blk previous_block \<and> valid_blocks_after B blk rest)"

text \<open>
  Modelled from the spec: \<^verbatim>\<open>valid_chain(chain)\<close> is true iff the chain is non-empty, its
  first block is the genesis and every later block is valid after the block before it.
\<close>

definition valid_chain :: "validator \<Rightarrow> block list \<Rightarrow> bool" where
  "valid_chain B c =
     (case c of [] \<Rightarrow> False
      | first # rest \<Rightarrow> first = v_genesis B \<and> valid_blocks_after B first rest)"

section \<open>Sample validator, blocks, nodes and frames\<close>

text \<open>
  A small validator on which chains can be checked by hand: the hash of a header is its
  \<^verbatim>\<open>previous_hash\<close> behind a \<^verbatim>\<open>#\<close>, and the valid proof of a hash is its length.
\<close>

definition sample_validator :: validator where
  "sample_validator =
     \<lparr>v_hash = (\<lambda>h. CHR ''#'' # previous_hash h),
      v_valid_proof = (\<lambda>prev_hash p. p = int (length prev_hash)),
      v_genesis = \<lparr>header = \<lparr>index = 0, previous_hash = ''0'', timestamp = 0,
                              merkle_root = [], block_proof = 100\<rparr>,
                   body = []\<rparr>\<rparr>"

definition block0 :: block where
  "block0 = v_genesis sample_validator"

definition block1 :: block where
  "block1 = \<lparr>header = \<lparr>index = 1, previous_hash = ''#0'', timestamp = 60,
                        merkle_root = [], block_proof = 2\<rparr>,
             body = []\<rparr>"

definition bob_entry :: peer where
  "bob_entry = \<lparr>peer_identifier = ''h2:b'', lastrecv = 1000, lastsend = 0, height = Some 1\<rparr>"

text \<open>A node that has completed the handshake with one peer and holds the genesis block.\<close>

definition alice :: node where
  "alice =
     \<lparr>identifier = ''h1:a'', chain = [block0], tx_info = [],
      peer_info = [(''h2:b'', bob_entry)], peers = [''h2:b''],
      keep_listening = True, ready = True, synced = False, outbox = [],
      clock = (\<lambda>k. 2000 + real k), ticks = 0\<rparr>"

definition frame_from_bob :: "string \<Rightarrow> message \<Rightarrow> string \<Rightarrow> envelope" where
  "frame_from_bob type msg target =
     \<lparr>e_type = type, e_identifier = ''h2:b'', e_message = msg, e_target = target\<rparr>"

text \<open>The same node with three peers: idle for 1800 s, for 1801 s, and never sent to.\<close>

definition crowded :: node where
  "crowded =
     alice\<lparr>peer_info :=
             [(''h2:b'', bob_entry\<lparr>lastsend := 2800\<rparr>),
              (''h3:c'', \<lparr>peer_identifier = ''h3:c'', lastrecv = 1000, lastsend = 2801, height = Some 1\<rparr>),
              (''h4:d'', \<lparr>peer_identifier = ''h4:d'', lastrecv = 1000, lastsend = 0, height = Some 1\<rparr>)],
           peers := [''h2:b'', ''h3:c'', ''h4:d'']\<rparr>"

text \<open>
  A node without peers, a \<^verbatim>\<open>version\<close> frame whose sender identifier is the empty string,
  and the node as it stands once it has received that frame.
\<close>

definition newcomer :: node where
  "newcomer = alice\<lparr>peer_info := [], peers := []\<rparr>"

definition nameless_version :: envelope where
  "nameless_version =
     \<lparr>e_type = ''version'', e_identifier = [],
      e_message = Dumps (no_keys\<lparr>p_height := Some 5\<rparr>), e_target = []\<rparr>"

definition haunted :: node where
  "haunted =
     newcomer\<lparr>peer_info :=
                [([], \<lparr>peer_identifier = [], lastrecv = 2003, lastsend = 2002, height = Some 5\<rparr>)],
              peers := [[]],
              outbox :=
                [\<lparr>e_type = ''verack'', e_identifier = ''h1:a'', e_message = Blank, e_target = []\<rparr>,
                 \<lparr>e_type = ''version'', e_identifier = ''h1:a'',
                  e_message = Dumps (no_keys\<lparr>p_height := Some 1\<rparr>), e_target = []\<rparr>],
              ticks := 4\<rparr>"

text \<open>An \<^verbatim>\<open>addblock\<close> broadcast carrying the block that extends the genesis block.\<close>

definition addblock1 :: envelope where
  "addblock1 = frame_from_bob ''addblock''
     (Dumps (no_keys\<lparr>p_block := Some block1, p_height := Some 2, p_tx_info := Some []\<rparr>)) []"

section \<open>Sequencing and message decoding\<close>

lemma then_do_simps:
  "then_do (None, s) f = f s"
  "then_do (Some e, s) f = (Some e, s)"
  by (simp_all add: then_do_def)

lemma loads_message_cases:
  "m \<noteq> Unparseable \<Longrightarrow> \<exists>msg. loads_message m = Inr msg"
  by (cases m) (simp_all add: loads_message_def)

text \<open>
  A frame that is not part of the handshake or the heartbeat passes through the handler
  of the base class without effect.
\<close>

lemma Node_handle_data_other:
  assumes "e_type data \<noteq> ''version''" and "e_type data \<noteq> ''verack''"
    and "e_type data \<noteq> ''heartbeat''" and "e_message data \<noteq> Unparseable"
  shows "Node_handle_data s data = (None, s)"
proof -
  obtain msg where "loads_message (e_message data) = Inr msg"
    using loads_message_cases [OF assms(4)] by blast
  then show ?thesis using assms(1,2,3) by (simp add: Node_handle_data_def then_do_simps)
qed

section \<open>Sending\<close>

text \<open>
  Whatever becomes of the bookkeeping, \<^verbatim>\<open>send\<close> changes the outbox, the peer table and
  the number of clock readings, and nothing else.
\<close>

lemma set_lastsend_shape:
  "\<exists>pinfo. snd (set_lastsend s p) = s\<lparr>peer_info := pinfo, ticks := Suc (ticks s)\<rparr>"
proof (cases "map_of (peer_info s) p")
  case None
  then show ?thesis
    by (intro exI [of _ "peer_info s"]) (simp add: set_lastsend_def Let_def)
next
  case (Some info)
  then show ?thesis
    by (intro exI [of _ "AList.update p (info\<lparr>lastsend := clock s (ticks s)\<rparr>) (peer_info s)"])
       (simp add: set_lastsend_def Let_def)
qed

lemma touch_all_shape:
  "\<exists>pinfo n. snd (touch_all ps s) = s\<lparr>peer_info := pinfo, ticks := n\<rparr>"
proof (induction ps arbitrary: s)
  case Nil
  have "s = s\<lparr>peer_info := peer_info s, ticks := ticks s\<rparr>" by simp
  then show ?case by (metis touch_all.simps(1) snd_conv)
next
  case (Cons p ps)
  obtain pinfo where a: "snd (set_lastsend s p) = s\<lparr>peer_info := pinfo, ticks := Suc (ticks s)\<rparr>"
    using set_lastsend_shape by blast
  show ?case
  proof (cases "set_lastsend s p")
    case (Pair r s1)
    with a have s1: "s1 = s\<lparr>peer_info := pinfo, ticks := Suc (ticks s)\<rparr>" by simp
    show ?thesis
    proof (cases r)
      case None
      obtain pinfo' n where "snd (touch_all ps s1) = s1\<lparr>peer_info := pinfo', ticks := n\<rparr>"
        using Cons.IH by blast
      then have "snd (touch_all (p # ps) s) = s\<lparr>peer_info := pinfo', ticks := n\<rparr>"
        using Pair None s1 by (simp add: then_do_simps)
      then show ?thesis by blast
    next
      case (Some e)
      then have "snd (touch_all (p # ps) s) = s\<lparr>peer_info := pinfo, ticks := Suc (ticks s)\<rparr>"
        using Pair s1 by (simp add: then_do_simps)
      then show ?thesis by blast
    qed
  qed
qed

lemma send_shape:
  "\<exists>pinfo n. snd (send s type msg target) =
     s\<lparr>outbox := outbox s @ [\<lparr>e_type = type, e_identifier = identifier s, e_message = msg,
                               e_target = target\<rparr>],
       peer_info := pinfo, ticks := n\<rparr>"
proof (cases "target = []")
  case True
  obtain pinfo n where
    "snd (touch_all (peers s) (s\<lparr>outbox := outbox s @ [\<lparr>e_type = type, e_identifier = identifier s,
        e_message = msg, e_target = target\<rparr>]\<rparr>)) =
     s\<lparr>outbox := outbox s @ [\<lparr>e_type = type, e_identifier = identifier s,
        e_message = msg, e_target = target\<rparr>]\<rparr>\<lparr>peer_info := pinfo, ticks := n\<rparr>"
    using touch_all_shape by blast
  with True show ?thesis by (auto simp: send_def Let_def)
next
  case False
  obtain pinfo where
    "snd (set_lastsend (s\<lparr>outbox := outbox s @ [\<lparr>e_type = type, e_identifier = identifier s,
        e_message = msg, e_target = target\<rparr>]\<rparr>) target) =
     s\<lparr>outbox := outbox s @ [\<lparr>e_type = type, e_identifier = identifier s,
        e_message = msg, e_target = target\<rparr>]\<rparr>\<lparr>peer_info := pinfo, ticks := Suc (ticks s)\<rparr>"
    using set_lastsend_shape [of "s\<lparr>outbox := outbox s @ [\<lparr>e_type = type, e_identifier = identifier s,
        e_message = msg, e_target = target\<rparr>]\<rparr>" target] by auto
  with False show ?thesis by (auto simp: send_def Let_def)
qed

lemma outbox_send:
  "outbox (snd (send s type msg target)) =
     outbox s @ [\<lparr>e_type = type, e_identifier = identifier s, e_message = msg, e_target = target\<rparr>]"
proof -
  obtain pinfo n where "snd (send s type msg target) =
     s\<lparr>outbox := outbox s @ [\<lparr>e_type = type, e_identifier = identifier s, e_message = msg,
                               e_target = target\<rparr>], peer_info := pinfo, ticks := n\<rparr>"
    using send_shape by blast
  then show ?thesis by simp
qed

lemma chain_send: "chain (snd (send s type msg target)) = chain s"
proof -
  obtain pinfo n where "snd (send s type msg target) =
     s\<lparr>outbox := outbox s @ [\<lparr>e_type = type, e_identifier = identifier s, e_message = msg,
                               e_target = target\<rparr>], peer_info := pinfo, ticks := n\<rparr>"
    using send_shape by blast
  then show ?thesis by simp
qed

lemma send_to_registered:
  assumes "target \<noteq> []" and "map_of (peer_info s) target = Some info"
  shows "send s type msg target =
     (None, s\<lparr>outbox := outbox s @ [\<lparr>e_type = type, e_identifier = identifier s, e_message = msg,
                                       e_target = target\<rparr>],
              ticks := Suc (ticks s),
              peer_info := AList.update target (info\<lparr>lastsend := clock s (ticks s)\<rparr>) (peer_info s)\<rparr>)"
  using assms by (simp add: send_def set_lastsend_def Let_def)

lemma map_of_None_iff: "map_of al k = None \<longleftrightarrow> k \<notin> fst ` set al"
  by (simp add: map_of_eq_None_iff)

lemma touch_all_registered:
  "set ps \<subseteq> fst ` set (peer_info s) \<Longrightarrow>
   \<exists>s'. touch_all ps s = (None, s') \<and> ticks s' = ticks s + length ps \<and>
        clock s' = clock s \<and> outbox s' = outbox s \<and>
        fst ` set (peer_info s') = fst ` set (peer_info s) \<and>
        (\<forall>q. q \<notin> set ps \<longrightarrow> map_of (peer_info s') q = map_of (peer_info s) q) \<and>
        (\<forall>p\<in>set ps. \<exists>info k. map_of (peer_info s') p = Some info \<and>
            ticks s \<le> k \<and> k < ticks s' \<and> lastsend info = clock s k)"
proof (induction ps arbitrary: s)
  case Nil
  then show ?case by simp
next
  case (Cons p ps)
  from Cons.prems obtain info where info: "map_of (peer_info s) p = Some info"
    by (cases "map_of (peer_info s) p") (auto simp: map_of_None_iff)
  define s1 where "s1 = s\<lparr>ticks := Suc (ticks s),
      peer_info := AList.update p (info\<lparr>lastsend := clock s (ticks s)\<rparr>) (peer_info s)\<rparr>"
  have step: "set_lastsend s p = (None, s1)"
    using info by (simp add: set_lastsend_def Let_def s1_def)
  have keys: "fst ` set (peer_info s1) = fst ` set (peer_info s)"
    using Cons.prems by (auto simp: s1_def AList.dom_update)
  have "set ps \<subseteq> fst ` set (peer_info s1)" using Cons.prems keys by simp
  from Cons.IH [OF this] obtain s' where s':
    "touch_all ps s1 = (None, s')" "ticks s' = ticks s1 + length ps"
    "clock s' = clock s1" "outbox s' = outbox s1"
    "fst ` set (peer_info s') = fst ` set (peer_info s1)"
    "\<forall>q. q \<notin> set ps \<longrightarrow> map_of (peer_info s') q = map_of (peer_info s1) q"
    "\<forall>p\<in>set ps. \<exists>info k. map_of (peer_info s') p = Some info \<and>
            ticks s1 \<le> k \<and> k < ticks s' \<and> lastsend info = clock s1 k"
    by blast
  have t1: "ticks s1 = Suc (ticks s)" and c1: "clock s1 = clock s" and o1: "outbox s1 = outbox s"
    by (simp_all add: s1_def)
  have m1: "map_of (peer_info s1) = (map_of (peer_info s))(p \<mapsto> info\<lparr>lastsend := clock s (ticks s)\<rparr>)"
    by (simp add: s1_def AList.update_conv')
  have a: "touch_all (p # ps) s = (None, s')"
    using step s'(1) by (simp add: then_do_simps)
  have b: "\<forall>q. q \<notin> set (p # ps) \<longrightarrow> map_of (peer_info s') q = map_of (peer_info s) q"
    using s'(6) m1 by simp
  have c: "\<forall>q\<in>set (p # ps). \<exists>info k. map_of (peer_info s') q = Some info \<and>
            ticks s \<le> k \<and> k < ticks s' \<and> lastsend info = clock s k"
  proof
    fix q assume q: "q \<in> set (p # ps)"
    show "\<exists>info k. map_of (peer_info s') q = Some info \<and>
            ticks s \<le> k \<and> k < ticks s' \<and> lastsend info = clock s k"
    proof (cases "q \<in> set ps")
      case True
      with s'(7) obtain i k where "map_of (peer_info s') q = Some i" "ticks s1 \<le> k" "k < ticks s'"
        "lastsend i = clock s1 k" by blast
      then show ?thesis using t1 c1 by (intro exI [of _ i] exI [of _ k]) simp
    next
      case False
      with q have "q = p" by simp
      with False s'(6) m1 have "map_of (peer_info s') q = Some (info\<lparr>lastsend := clock s (ticks s)\<rparr>)"
        by simp
      then show ?thesis using s'(2) t1
        by (intro exI [of _ "info\<lparr>lastsend := clock s (ticks s)\<rparr>"] exI [of _ "ticks s"]) simp
    qed
  qed
  show ?case using a b c s'(2,3,4,5) t1 c1 o1 keys by (intro exI [of _ s']) simp
qed

text \<open>
  C10. A targeted send whose target has no entry in the peer table hands the frame to
  the transport and then fails with \<^verbatim>\<open>KeyError\<close>, the clock having been read once. A
  broadcast send, on a node whose known peers all have an entry, returns normally, and
  afterwards every known peer's \<^verbatim>\<open>lastsend\<close> is a clock reading taken during the send.
\<close>

theorem send_bookkeeping:
  "(target \<noteq> [] \<and> map_of (peer_info s) target = None \<longrightarrow>
      send s type msg target =
        (Some KeyError,
         s\<lparr>outbox := outbox s @ [\<lparr>e_type = type, e_identifier = identifier s, e_message = msg,
                                   e_target = target\<rparr>],
           ticks := Suc (ticks s)\<rparr>)) \<and>
   (set (peers s) \<subseteq> fst ` set (peer_info s) \<longrightarrow>
      (\<exists>s'. send s type msg [] = (None, s') \<and>
         outbox s' = outbox s @ [\<lparr>e_type = type, e_identifier = identifier s, e_message = msg,
                                   e_target = []\<rparr>] \<and>
         (\<forall>p\<in>set (peers s). \<exists>info k. map_of (peer_info s') p = Some info \<and>
             ticks s \<le> k \<and> k < ticks s' \<and> lastsend info = clock s k)))"
proof (intro conjI impI)
  assume "target \<noteq> [] \<and> map_of (peer_info s) target = None"
  then show "send s type msg target =
        (Some KeyError,
         s\<lparr>outbox := outbox s @ [\<lparr>e_type = type, e_identifier = identifier s, e_message = msg,
                                   e_target = target\<rparr>],
           ticks := Suc (ticks s)\<rparr>)"
    by (simp add: send_def set_lastsend_def Let_def)
next
  assume sub: "set (peers s) \<subseteq> fst ` set (peer_info s)"
  define s1 where "s1 = s\<lparr>outbox := outbox s @ [\<lparr>e_type = type, e_identifier = identifier s,
      e_message = msg, e_target = []\<rparr>]\<rparr>"
  have "set (peers s1) \<subseteq> fst ` set (peer_info s1)" using sub by (simp add: s1_def)
  from touch_all_registered [OF this] obtain s' where s':
    "touch_all (peers s1) s1 = (None, s')" "outbox s' = outbox s1"
    "\<forall>p\<in>set (peers s1). \<exists>info k. map_of (peer_info s') p = Some info \<and>
            ticks s1 \<le> k \<and> k < ticks s' \<and> lastsend info = clock s1 k"
    by blast
  have "send s type msg [] = (None, s')"
    using s'(1) by (simp add: send_def Let_def s1_def)
  moreover have "outbox s' = outbox s @ [\<lparr>e_type = type, e_identifier = identifier s,
      e_message = msg, e_target = []\<rparr>]"
    using s'(2) by (simp add: s1_def)
  moreover have "\<forall>p\<in>set (peers s). \<exists>info k. map_of (peer_info s') p = Some info \<and>
             ticks s \<le> k \<and> k < ticks s' \<and> lastsend info = clock s k"
    using s'(3) by (simp add: s1_def)
  ultimately show "\<exists>s'. send s type msg [] = (None, s') \<and>
         outbox s' = outbox s @ [\<lparr>e_type = type, e_identifier = identifier s, e_message = msg,
                                   e_target = []\<rparr>] \<and>
         (\<forall>p\<in>set (peers s). \<exists>info k. map_of (peer_info s') p = Some info \<and>
             ticks s \<le> k \<and> k < ticks s' \<and> lastsend info = clock s k)"
    by blast
qed

text \<open>
  C10 on the sample node: a \<^verbatim>\<open>getdata\<close> for an unknown peer fails after the frame is
  out, a broadcast \<^verbatim>\<open>heartbeat\<close> stamps the one known peer.
\<close>

theorem send_bookkeeping_witness:
  "''h3:c'' \<noteq> [] \<and> map_of (peer_info alice) ''h3:c'' = None \<and>
   send alice ''getdata'' Blank ''h3:c'' =
     (Some KeyError,
      alice\<lparr>outbox := [\<lparr>e_type = ''getdata'', e_identifier = ''h1:a'', e_message = Blank,
                         e_target = ''h3:c''\<rparr>],
            ticks := 1\<rparr>) \<and>
   set (peers alice) \<subseteq> fst ` set (peer_info alice) \<and>
   send alice ''heartbeat'' Blank [] =
     (None,
      alice\<lparr>outbox := [\<lparr>e_type = ''heartbeat'', e_identifier = ''h1:a'', e_message = Blank,
                         e_target = []\<rparr>],
            peer_info := [(''h2:b'', bob_entry\<lparr>lastsend := 2000\<rparr>)],
            ticks := 1\<rparr>)"
  using send_bookkeeping [of "''h3:c''" alice "''getdata''" Blank]
    send_bookkeeping [of "''h3:c''" alice "''heartbeat''" Blank]
  by (simp add: alice_def send_def set_lastsend_def Let_def then_do_simps)

section \<open>Handshake and heartbeat\<close>

lemma register_peer_known:
  "ident \<in> set (peers s) \<Longrightarrow> register_peer s ident h = (False, s)"
  by (simp add: register_peer_def)

lemma keys_update_known:
  "map_of al k = Some v \<Longrightarrow> map fst (AList.update k v' al) = map fst al"
  by (auto simp: AList.update_keys dest: map_of_SomeD intro: rev_image_eqI)

text \<open>
  The stamp that \<^verbatim>\<open>recv\<close> puts on the sender after the handler has returned touches one
  entry of the peer table: the outbox, the peer set and the keys of the table stay.
\<close>

lemma set_lastrecv_keeps:
  "outbox (snd (set_lastrecv s p)) = outbox s \<and> peers (snd (set_lastrecv s p)) = peers s \<and>
   map fst (peer_info (snd (set_lastrecv s p))) = map fst (peer_info s)"
  by (simp add: set_lastrecv_def Let_def keys_update_known split: option.splits)

lemma recv_passed:
  assumes "e_target data = [] \<or> e_target data = identifier s"
  shows "recv handle_data s (Framed data) =
           then_do (handle_data s data)
             (\<lambda>s1. if e_identifier data \<in> set (peers s1) then set_lastrecv s1 (e_identifier data)
                    else (None, s1))"
  using assms by (auto simp: recv_def Let_def)

lemma recv_keeps:
  "outbox (snd (recv handle_data s (Framed data))) = outbox (snd (handle_data s data)) \<and>
   peers (snd (recv handle_data s (Framed data))) = peers (snd (handle_data s data)) \<and>
   map fst (peer_info (snd (recv handle_data s (Framed data)))) =
     map fst (peer_info (snd (handle_data s data))) \<or>
   recv handle_data s (Framed data) = (None, s)"
proof (cases "e_target data = [] \<or> e_target data = identifier s")
  case True
  obtain r s1 where h: "handle_data s data = (r, s1)" by (cases "handle_data s data")
  show ?thesis
    unfolding recv_passed [OF True] h
    using set_lastrecv_keeps [of s1 "e_identifier data"]
    by (cases r) (simp_all add: then_do_simps)
next
  case False
  then show ?thesis by (simp add: recv_def)
qed

text \<open>
  On a \<^verbatim>\<open>version\<close> from a known peer the handler of the base class returns the node as
  it got it, whatever the payload: an unparseable payload raises at line 122, a payload
  that is not an object raises at \<^verbatim>\<open>message.get\<close>, and otherwise \<^verbatim>\<open>register_peer\<close>
  returns false and the replies are skipped. The full node adds nothing.
\<close>

lemma Node_version_known:
  assumes "e_type data = ''version''" and "e_identifier data \<in> set (peers s)"
  shows "snd (Node_handle_data s data) = s"
proof (cases "e_message data")
  case Blank
  then show ?thesis using assms
    by (simp add: Node_handle_data_def loads_message_def get_key_def register_peer_known
        then_do_simps)
next
  case Unparseable
  then show ?thesis by (simp add: Node_handle_data_def loads_message_def)
next
  case NonObject
  then show ?thesis using assms(1)
    by (simp add: Node_handle_data_def loads_message_def get_key_def then_do_simps)
next
  case (Dumps p)
  then show ?thesis using assms
    by (simp add: Node_handle_data_def loads_message_def get_key_def register_peer_known
        then_do_simps)
qed

lemma BlockchainNode_version:
  assumes "e_type data = ''version''"
  shows "snd (BlockchainNode_handle_data valid_chain' s data) = snd (Node_handle_data s data)"
proof (cases "Node_handle_data s data")
  case (Pair r s1)
  show ?thesis
  proof (cases r)
    case None
    then show ?thesis using Pair assms
      by (simp add: BlockchainNode_handle_data_def then_do_simps Let_def split: sum.splits)
  next
    case (Some e)
    then show ?thesis using Pair by (simp add: BlockchainNode_handle_data_def then_do_simps)
  qed
qed

text \<open>
  C3, as the code has it. Handling a \<^verbatim>\<open>version\<close> from a peer that is already registered
  leaves the peer table unchanged: \<^verbatim>\<open>register_peer\<close> returns false, the table and the peer
  set are what they were. The replies being guarded by \<^verbatim>\<open>if registered\<close>, nothing is
  handed to the transport: no \<^verbatim>\<open>verack\<close> is sent. When the frame comes in through
  \<^verbatim>\<open>recv\<close>, the keys of the table, the peer set and the outbox are unchanged as well.
  This holds for the base class and for the full node.
\<close>

theorem version_from_known_peer:
  assumes "handle_data = Node_handle_data \<or> handle_data = BlockchainNode_handle_data valid_chain'"
    and "e_type data = ''version''" and "e_identifier data \<in> set (peers s)"
  shows "register_peer s (e_identifier data) h = (False, s) \<and>
         peer_info (snd (handle_data s data)) = peer_info s \<and>
         peers (snd (handle_data s data)) = peers s \<and>
         outbox (snd (handle_data s data)) = outbox s \<and>
         map fst (peer_info (snd (recv handle_data s (Framed data)))) = map fst (peer_info s) \<and>
         peers (snd (recv handle_data s (Framed data))) = peers s \<and>
         outbox (snd (recv handle_data s (Framed data))) = outbox s"
proof -
  have same: "snd (handle_data s data) = s"
    using assms(1) Node_version_known [OF assms(2,3)] BlockchainNode_version [OF assms(2)]
    by auto
  have "register_peer s (e_identifier data) h = (False, s)"
    using assms(3) by (rule register_peer_known)
  then show ?thesis using same recv_keeps [of handle_data s data] by auto
qed

text \<open>
  C3 as stated fails: the sample node knows the sender, and after its \<^verbatim>\<open>version\<close>,
  handled directly or received from the queue, the outbox is still empty, so no
  \<^verbatim>\<open>verack\<close> went out.
\<close>

theorem version_from_known_peer_counterexample:
  "e_identifier (frame_from_bob ''version'' (Dumps (no_keys\<lparr>p_height := Some 1\<rparr>)) []) = ''h2:b'' \<and>
   peers alice = [''h2:b''] \<and> outbox alice = [] \<and>
   outbox (snd (Node_handle_data alice
      (frame_from_bob ''version'' (Dumps (no_keys\<lparr>p_height := Some 1\<rparr>)) []))) = [] \<and>
   outbox (snd (recv Node_handle_data alice
      (Framed (frame_from_bob ''version'' (Dumps (no_keys\<lparr>p_height := Some 1\<rparr>)) [])))) = []"
  by (simp add: frame_from_bob_def alice_def recv_def Node_handle_data_def register_peer_def
      loads_message_def get_key_def set_lastrecv_def then_do_simps Let_def)

text \<open>
  The amended C3 on the sample node.
\<close>

theorem version_from_known_peer_witness:
  "e_type (frame_from_bob ''version'' (Dumps (no_keys\<lparr>p_height := Some 1\<rparr>)) []) = ''version'' \<and>
   e_identifier (frame_from_bob ''version'' (Dumps (no_keys\<lparr>p_height := Some 1\<rparr>)) [])
     \<in> set (peers alice) \<and>
   register_peer alice ''h2:b'' (Some 1) = (False, alice) \<and>
   peer_info (snd (Node_handle_data alice
      (frame_from_bob ''version'' (Dumps (no_keys\<lparr>p_height := Some 1\<rparr>)) []))) = peer_info alice \<and>
   peers (snd (Node_handle_data alice
      (frame_from_bob ''version'' (Dumps (no_keys\<lparr>p_height := Some 1\<rparr>)) []))) = [''h2:b''] \<and>
   outbox (snd (Node_handle_data alice
      (frame_from_bob ''version'' (Dumps (no_keys\<lparr>p_height := Some 1\<rparr>)) []))) = [] \<and>
   map fst (peer_info (snd (recv Node_handle_data alice
      (Framed (frame_from_bob ''version'' (Dumps (no_keys\<lparr>p_height := Some 1\<rparr>)) []))))) = [''h2:b''] \<and>
   peers (snd (recv Node_handle_data alice
      (Framed (frame_from_bob ''version'' (Dumps (no_keys\<lparr>p_height := Some 1\<rparr>)) [])))) = [''h2:b''] \<and>
   outbox (snd (recv Node_handle_data alice
      (Framed (frame_from_bob ''version'' (Dumps (no_keys\<lparr>p_height := Some 1\<rparr>)) [])))) = []"
  using version_from_known_peer [of Node_handle_data "valid_chain sample_validator"
      "frame_from_bob ''version'' (Dumps (no_keys\<lparr>p_height := Some 1\<rparr>)) []" alice "Some 1"]
  by (simp add: frame_from_bob_def alice_def)

text \<open>
  A \<^verbatim>\<open>heartbeat\<close> whose payload can be read is answered by the handler of the base class
  if and only if the node is ready; the full node adds nothing.
\<close>

lemma Node_heartbeat:
  assumes "e_type data = ''heartbeat''" and "e_message data \<noteq> Unparseable"
  shows "Node_handle_data s data =
           (if ready s then send s ''heartbeatack'' Blank (e_identifier data) else (None, s))"
proof -
  obtain msg where "loads_message (e_message data) = Inr msg"
    using loads_message_cases [OF assms(2)] by blast
  then show ?thesis using assms(1) by (simp add: Node_handle_data_def then_do_simps)
qed

lemma BlockchainNode_heartbeat:
  assumes "e_type data = ''heartbeat''"
  shows "snd (BlockchainNode_handle_data valid_chain' s data) = snd (Node_handle_data s data)"
proof (cases "Node_handle_data s data")
  case (Pair r s1)
  show ?thesis
  proof (cases r)
    case None
    then show ?thesis using Pair assms
      by (simp add: BlockchainNode_handle_data_def then_do_simps Let_def split: sum.splits)
  next
    case (Some e)
    then show ?thesis using Pair by (simp add: BlockchainNode_handle_data_def then_do_simps)
  qed
qed

text \<open>
  C9, as the code has it. A node that is ready and receives a broadcast \<^verbatim>\<open>heartbeat\<close>
  whose payload is empty or can be parsed hands to the transport a \<^verbatim>\<open>heartbeatack\<close> whose
  target is the sender of the heartbeat; a node that is not ready hands over nothing.
  This holds for the base class and for the full node.
\<close>

theorem heartbeat_reply_when_ready:
  assumes "handle_data = Node_handle_data \<or> handle_data = BlockchainNode_handle_data valid_chain'"
    and "e_type data = ''heartbeat''" and "e_target data = []"
    and "e_message data \<noteq> Unparseable"
  shows "(ready s \<longrightarrow>
            outbox (snd (recv handle_data s (Framed data))) =
              outbox s @ [\<lparr>e_type = ''heartbeatack'', e_identifier = identifier s,
                            e_message = Blank, e_target = e_identifier data\<rparr>]) \<and>
         (\<not> ready s \<longrightarrow> outbox (snd (recv handle_data s (Framed data))) = outbox s)"
proof -
  have "snd (handle_data s data) = snd (Node_handle_data s data)"
    using assms(1) BlockchainNode_heartbeat [OF assms(2)] by auto
  then have h: "outbox (snd (handle_data s data)) =
      (if ready s then outbox s @ [\<lparr>e_type = ''heartbeatack'', e_identifier = identifier s,
                            e_message = Blank, e_target = e_identifier data\<rparr>] else outbox s)"
    using Node_heartbeat [OF assms(2,4), of s] by (simp add: outbox_send)
  obtain r s1 where hd: "handle_data s data = (r, s1)" by (cases "handle_data s data")
  have "outbox (snd (recv handle_data s (Framed data))) = outbox (snd (handle_data s data))"
    unfolding recv_passed [OF disjI1 [OF assms(3)]] hd
    using set_lastrecv_keeps [of s1 "e_identifier data"]
    by (cases r) (simp_all add: then_do_simps)
  with h show ?thesis by simp
qed

text \<open>
  C9 as stated fails: the sample node before its handshake has completed receives a
  broadcast \<^verbatim>\<open>heartbeat\<close> from the peer it knows, stamps the peer and sends nothing.
\<close>

theorem heartbeat_reply_when_ready_counterexample:
  "recv Node_handle_data (alice\<lparr>ready := False\<rparr>) (Framed (frame_from_bob ''heartbeat'' Blank [])) =
     (None, alice\<lparr>ready := False, peer_info := [(''h2:b'', bob_entry\<lparr>lastrecv := 2000\<rparr>)],
                  ticks := 1\<rparr>) \<and>
   outbox (alice\<lparr>ready := False, peer_info := [(''h2:b'', bob_entry\<lparr>lastrecv := 2000\<rparr>)],
                 ticks := 1\<rparr>) = []"
  by (simp add: frame_from_bob_def alice_def recv_def Node_handle_data_def loads_message_def
      set_lastrecv_def then_do_simps Let_def)

text \<open>
  The amended C9 on the sample node, ready and not ready.
\<close>

theorem heartbeat_reply_when_ready_witness:
  "e_type (frame_from_bob ''heartbeat'' Blank []) = ''heartbeat'' \<and>
   e_target (frame_from_bob ''heartbeat'' Blank []) = [] \<and>
   e_message (frame_from_bob ''heartbeat'' Blank []) \<noteq> Unparseable \<and>
   ready alice \<and>
   outbox (snd (recv Node_handle_data alice (Framed (frame_from_bob ''heartbeat'' Blank [])))) =
     [\<lparr>e_type = ''heartbeatack'', e_identifier = ''h1:a'', e_message = Blank, e_target = ''h2:b''\<rparr>] \<and>
   \<not> ready (alice\<lparr>ready := False\<rparr>) \<and>
   outbox (snd (recv Node_handle_data (alice\<lparr>ready := False\<rparr>)
     (Framed (frame_from_bob ''heartbeat'' Blank [])))) = []"
  using heartbeat_reply_when_ready [of Node_handle_data "valid_chain sample_validator"
      "frame_from_bob ''heartbeat'' Blank []" alice]
    heartbeat_reply_when_ready [of Node_handle_data "valid_chain sample_validator"
      "frame_from_bob ''heartbeat'' Blank []" "alice\<lparr>ready := False\<rparr>"]
  by (simp add: frame_from_bob_def alice_def)

section \<open>Receiving\<close>

text \<open>
  C7. A decoded frame whose target is non-empty and is not this node's identifier is
  dropped: no handler runs, and the node, its outbox and its clock count included, is
  unchanged.
\<close>

theorem recv_drops_misaddressed:
  assumes "e_target data \<noteq> []" and "e_target data \<noteq> identifier s"
  shows "recv handle_data s (Framed data) = (None, s)"
  using assms by (simp add: recv_def)

text \<open>
  C7 on the sample node: a frame for a third party.
\<close>

theorem recv_drops_misaddressed_witness:
  "e_target (frame_from_bob ''getdata'' Blank ''h3:c'') \<noteq> [] \<and>
   e_target (frame_from_bob ''getdata'' Blank ''h3:c'') \<noteq> identifier alice \<and>
   recv (BlockchainNode_handle_data (valid_chain sample_validator)) alice
     (Framed (frame_from_bob ''getdata'' Blank ''h3:c'')) = (None, alice)"
  using recv_drops_misaddressed [of "frame_from_bob ''getdata'' Blank ''h3:c''" alice
      "BlockchainNode_handle_data (valid_chain sample_validator)"]
  by (simp add: frame_from_bob_def alice_def)








section \<open>The idle sweep\<close>

text \<open>
  Deleting the collected keys one by one is one pass of \<open>filter\<close> over the table and one
  over the set, provided the keys of the table are distinct, as those of a dictionary are.
\<close>

lemma disconnect_filters:
  "distinct ks \<Longrightarrow> set ks \<subseteq> fst ` set (peer_info s) \<Longrightarrow> set ks \<subseteq> set (peers s) \<Longrightarrow>
   disconnect ks s =
     (None, s\<lparr>peer_info := filter (\<lambda>(k, info). k \<notin> set ks) (peer_info s),
              peers := filter (\<lambda>p. p \<notin> set ks) (peers s)\<rparr>)"
proof (induction ks arbitrary: s)
  case Nil
  then show ?case by simp
next
  case (Cons k ks)
  define s2 where "s2 = s\<lparr>peer_info := AList.delete k (peer_info s),
                          peers := removeAll k (peers s)\<rparr>"
  have d: "distinct ks" and nk: "k \<notin> set ks" using Cons.prems(1) by simp_all
  have a: "set ks \<subseteq> fst ` set (peer_info s2)"
  proof
    fix x assume x: "x \<in> set ks"
    with Cons.prems(2) obtain v where "(x, v) \<in> set (peer_info s)" by force
    moreover have "x \<noteq> k" using x nk by auto
    ultimately have "(x, v) \<in> set (AList.delete k (peer_info s))"
      by (simp add: AList.delete_eq)
    then show "x \<in> fst ` set (peer_info s2)" by (force simp: s2_def)
  qed
  have b: "set ks \<subseteq> set (peers s2)"
    using Cons.prems(3) nk by (auto simp: s2_def)
  have "disconnect (k # ks) s = disconnect ks s2"
    using Cons.prems(2,3) by (simp add: s2_def Let_def)
  also have "\<dots> = (None, s2\<lparr>peer_info := filter (\<lambda>(k, info). k \<notin> set ks) (peer_info s2),
              peers := filter (\<lambda>p. p \<notin> set ks) (peers s2)\<rparr>)"
    by (rule Cons.IH [OF d a b])
  also have "filter (\<lambda>(k, info). k \<notin> set ks) (peer_info s2) =
      filter (\<lambda>(k', info). k' \<notin> set (k # ks)) (peer_info s)"
    by (auto simp: s2_def AList.delete_eq intro: filter_cong)
  also have "filter (\<lambda>p. p \<notin> set ks) (peers s2) = filter (\<lambda>p. p \<notin> set (k # ks)) (peers s)"
    by (auto simp: s2_def removeAll_filter_not_eq intro: filter_cong)
  finally show ?case by (simp add: s2_def)
qed

lemma map_of_filter_distinct:
  "distinct (map fst al) \<Longrightarrow>
   map_of (filter (\<lambda>(k, v). P v) al) k = (case map_of al k of None \<Rightarrow> None | Some v \<Rightarrow> if P v then Some v else None)"
proof (induction al)
  case Nil
  then show ?case by simp
next
  case (Cons a al)
  obtain k' v' where a: "a = (k', v')" by (cases a)
  from Cons.prems a have nk: "k' \<notin> fst ` set al" and d: "distinct (map fst al)" by auto
  show ?case
  proof (cases "k = k'")
    case True
    with nk have "map_of al k = None" by (simp add: map_of_eq_None_iff)
    moreover from this have "map_of (filter (\<lambda>(k, v). P v) al) k = None"
      using Cons.IH [OF d] by simp
    ultimately show ?thesis using a True by simp
  next
    case False
    then show ?thesis using a Cons.IH [OF d] by simp
  qed
qed

lemma idle_keys_filter:
  "distinct (map fst al) \<Longrightarrow>
   filter (\<lambda>(k, v). k \<notin> set (map fst (filter (\<lambda>(k, v). P v) al))) al = filter (\<lambda>(k, v). \<not> P v) al"
proof (rule filter_cong [OF refl])
  fix x assume d: "distinct (map fst al)" and x: "x \<in> set al"
  obtain k v where kv: "x = (k, v)" by (cases x)
  have "k \<in> set (map fst (filter (\<lambda>(k, v). P v) al)) \<longleftrightarrow> P v"
  proof
    assume "k \<in> set (map fst (filter (\<lambda>(k, v). P v) al))"
    then obtain v' where "(k, v') \<in> set al" "P v'" by auto
    with d x kv have "v' = v" by (meson eq_key_imp_eq_value)
    with \<open>P v'\<close> show "P v" by simp
  next
    assume "P v"
    with x kv show "k \<in> set (map fst (filter (\<lambda>(k, v). P v) al))" by force
  qed
  then show "(case x of (k, v) \<Rightarrow> k \<notin> set (map fst (filter (\<lambda>(k, v). P v) al))) = (case x of (k, v) \<Rightarrow> \<not> P v)"
    using kv by simp
qed

lemma sweep_result:
  assumes "distinct (map fst (peer_info s))" and "fst ` set (peer_info s) \<subseteq> set (peers s)"
  shows "sweep s =
     (None, s\<lparr>peer_info := filter (\<lambda>(k, info). \<not> lastsend info - lastrecv info > 60 * 30) (peer_info s),
              peers := filter (\<lambda>p. p \<notin> set (disconnected_peers s)) (peers s)\<rparr>)"
proof -
  have d: "distinct (disconnected_peers s)"
    using assms(1) unfolding disconnected_peers_def by (simp add: distinct_map_filter)
  have a: "set (disconnected_peers s) \<subseteq> fst ` set (peer_info s)"
    unfolding disconnected_peers_def by auto
  have b: "set (disconnected_peers s) \<subseteq> set (peers s)" using a assms(2) by blast
  have "filter (\<lambda>(k, info). k \<notin> set (disconnected_peers s)) (peer_info s) =
        filter (\<lambda>(k, info). \<not> lastsend info - lastrecv info > 60 * 30) (peer_info s)"
    unfolding disconnected_peers_def using idle_keys_filter [OF assms(1)] by simp
  then show ?thesis
    unfolding sweep_def using disconnect_filters [OF d a b] by simp
qed

lemma disconnected_iff:
  assumes "distinct (map fst (peer_info s))"
  shows "p \<in> set (disconnected_peers s) \<longleftrightarrow>
         (\<exists>info. map_of (peer_info s) p = Some info \<and> lastsend info - lastrecv info > 1800)"
  using assms unfolding disconnected_peers_def by (auto simp: image_iff)

text \<open>
  C4. On a node whose peer table has an entry only for known peers, the sweep returns
  normally and removes exactly the peers with \<^verbatim>\<open>lastsend - lastrecv > 1800\<close>, from the
  table and from the set: a difference of exactly 1800 keeps the peer, 1801 removes it,
  and a peer with \<^verbatim>\<open>lastsend = 0\<close> whose \<^verbatim>\<open>lastrecv\<close> is a reading of the clock, which
  counts seconds from the epoch and is not negative, is kept.
\<close>

theorem sweep_removes_idle:
  assumes "distinct (map fst (peer_info s))" and "fst ` set (peer_info s) \<subseteq> set (peers s)"
  shows "\<exists>s'. sweep s = (None, s') \<and>
     (\<forall>p. map_of (peer_info s') p =
        (case map_of (peer_info s) p of None \<Rightarrow> None
         | Some info \<Rightarrow> if lastsend info - lastrecv info > 1800 then None else Some info)) \<and>
     (\<forall>p. p \<in> set (peers s') \<longleftrightarrow>
        p \<in> set (peers s) \<and>
        \<not> (\<exists>info. map_of (peer_info s) p = Some info \<and> lastsend info - lastrecv info > 1800)) \<and>
     (\<forall>p info. map_of (peer_info s) p = Some info \<and> lastsend info - lastrecv info = 1800 \<longrightarrow>
        map_of (peer_info s') p = Some info \<and> p \<in> set (peers s')) \<and>
     (\<forall>p info. map_of (peer_info s) p = Some info \<and> lastsend info - lastrecv info = 1801 \<longrightarrow>
        map_of (peer_info s') p = None \<and> p \<notin> set (peers s')) \<and>
     (\<forall>p info. map_of (peer_info s) p = Some info \<and> lastsend info = 0 \<and> 0 \<le> lastrecv info \<longrightarrow>
        map_of (peer_info s') p = Some info \<and> p \<in> set (peers s'))"
proof -
  define s' where "s' = s\<lparr>peer_info := filter (\<lambda>(k, info). \<not> lastsend info - lastrecv info > 60 * 30) (peer_info s),
              peers := filter (\<lambda>p. p \<notin> set (disconnected_peers s)) (peers s)\<rparr>"
  have sw: "sweep s = (None, s')"
    unfolding s'_def by (rule sweep_result [OF assms])
  have m: "map_of (peer_info s') p =
        (case map_of (peer_info s) p of None \<Rightarrow> None
         | Some info \<Rightarrow> if lastsend info - lastrecv info > 1800 then None else Some info)" for p
    using map_of_filter_distinct [OF assms(1), of "\<lambda>info. \<not> lastsend info - lastrecv info > 60 * 30" p]
    by (simp add: s'_def split: option.splits)
  have p: "p \<in> set (peers s') \<longleftrightarrow>
        p \<in> set (peers s) \<and>
        \<not> (\<exists>info. map_of (peer_info s) p = Some info \<and> lastsend info - lastrecv info > 1800)" for p
    using disconnected_iff [OF assms(1), of p] by (simp add: s'_def)
  have reg: "p \<in> set (peers s)" if "map_of (peer_info s) p = Some info" for p info
  proof -
    from that have "(p, info) \<in> set (peer_info s)" by (rule map_of_SomeD)
    then have "p \<in> fst ` set (peer_info s)" by force
    with assms(2) show ?thesis by blast
  qed
  have k1: "map_of (peer_info s') p = Some info \<and> p \<in> set (peers s')"
    if "map_of (peer_info s) p = Some info \<and> lastsend info - lastrecv info = 1800" for p info
    using that m [of p] p [of p] reg [of p info] by simp
  have k2: "map_of (peer_info s') p = None \<and> p \<notin> set (peers s')"
    if "map_of (peer_info s) p = Some info \<and> lastsend info - lastrecv info = 1801" for p info
    using that m [of p] p [of p] by simp
  have k3: "map_of (peer_info s') p = Some info \<and> p \<in> set (peers s')"
    if "map_of (peer_info s) p = Some info \<and> lastsend info = 0 \<and> 0 \<le> lastrecv info" for p info
    using that m [of p] p [of p] reg [of p info] by simp
  show ?thesis using sw m p k1 k2 k3 by (intro exI [of _ s']) blast
qed

text \<open>
  C4 on the node with three peers.
\<close>

theorem sweep_removes_idle_witness:
  "distinct (map fst (peer_info crowded)) \<and> fst ` set (peer_info crowded) \<subseteq> set (peers crowded) \<and>
   sweep crowded =
     (None, crowded\<lparr>peer_info :=
                      [(''h2:b'', bob_entry\<lparr>lastsend := 2800\<rparr>),
                       (''h4:d'', \<lparr>peer_identifier = ''h4:d'', lastrecv = 1000, lastsend = 0, height = Some 1\<rparr>)],
                    peers := [''h2:b'', ''h4:d'']\<rparr>) \<and>
   map_option (\<lambda>info. lastsend info - lastrecv info) (map_of (peer_info crowded) ''h2:b'') = Some 1800 \<and>
   map_option (\<lambda>info. lastsend info - lastrecv info) (map_of (peer_info crowded) ''h3:c'') = Some 1801 \<and>
   map_option lastsend (map_of (peer_info crowded) ''h4:d'') = Some 0"
  using sweep_removes_idle [of crowded]
  by (simp add: crowded_def alice_def bob_entry_def sweep_def disconnected_peers_def Let_def)

section \<open>Conflict resolution\<close>

text \<open>
  The scan returns the greatest height on offer, or the local length if none exceeds it,
  together with a peer that claims it.
\<close>

lemma scan_peers_result:
  assumes "\<forall>p\<in>set ps. \<forall>info. map_of pinfo p = Some info \<longrightarrow> height info \<noteq> None"
  shows "\<exists>mh' mp'. scan_peers pinfo ps (mh, mp) = Inr (mh', mp') \<and> mh \<le> mh' \<and>
    (\<forall>p\<in>set ps. \<forall>info h. map_of pinfo p = Some info \<and> height info = Some h \<longrightarrow> h \<le> mh') \<and>
    (mh' = mh \<and> mp' = mp \<or>
     mh < mh' \<and> (\<exists>p\<in>set ps. \<exists>info. mp' = Some p \<and> map_of pinfo p = Some info \<and>
                    height info = Some mh'))"
  using assms
proof (induction ps arbitrary: mh mp)
  case Nil
  then show ?case by simp
next
  case (Cons q qs)
  have rest: "\<forall>p\<in>set qs. \<forall>info. map_of pinfo p = Some info \<longrightarrow> height info \<noteq> None"
    using Cons.prems by simp
  show ?case
  proof (cases "map_of pinfo q")
    case None
    from Cons.IH [OF rest, of mh mp] obtain mh' mp' where r:
      "scan_peers pinfo qs (mh, mp) = Inr (mh', mp')" "mh \<le> mh'"
      "\<forall>p\<in>set qs. \<forall>info h. map_of pinfo p = Some info \<and> height info = Some h \<longrightarrow> h \<le> mh'"
      "mh' = mh \<and> mp' = mp \<or>
       mh < mh' \<and> (\<exists>p\<in>set qs. \<exists>info. mp' = Some p \<and> map_of pinfo p = Some info \<and>
                    height info = Some mh')"
      by blast
    have "scan_peers pinfo (q # qs) (mh, mp) = Inr (mh', mp')" using None r(1) by simp
    with r(2,3,4) None show ?thesis by (intro exI [of _ mh'] exI [of _ mp']) auto
  next
    case (Some info)
    with Cons.prems obtain h where h: "height info = Some h" by auto
    show ?thesis
    proof (cases "h > mh")
      case True
      from Cons.IH [OF rest, of h "Some q"] obtain mh' mp' where r:
        "scan_peers pinfo qs (h, Some q) = Inr (mh', mp')" "h \<le> mh'"
        "\<forall>p\<in>set qs. \<forall>info h. map_of pinfo p = Some info \<and> height info = Some h \<longrightarrow> h \<le> mh'"
        "mh' = h \<and> mp' = Some q \<or>
         h < mh' \<and> (\<exists>p\<in>set qs. \<exists>info. mp' = Some p \<and> map_of pinfo p = Some info \<and>
                    height info = Some mh')"
        by blast
      have "scan_peers pinfo (q # qs) (mh, mp) = Inr (mh', mp')"
        using Some h True r(1) by simp
      moreover have "mh < mh'" using True r(2) by simp
      moreover have "\<exists>p\<in>set (q # qs). \<exists>info. mp' = Some p \<and> map_of pinfo p = Some info \<and>
                    height info = Some mh'"
        using r(4) Some h by auto
      moreover have "\<forall>p\<in>set (q # qs). \<forall>info h. map_of pinfo p = Some info \<and> height info = Some h \<longrightarrow> h \<le> mh'"
        using r(2,3) Some h by auto
      ultimately show ?thesis by (intro exI [of _ mh'] exI [of _ mp']) simp
    next
      case False
      from Cons.IH [OF rest, of mh mp] obtain mh' mp' where r:
        "scan_peers pinfo qs (mh, mp) = Inr (mh', mp')" "mh \<le> mh'"
        "\<forall>p\<in>set qs. \<forall>info h. map_of pinfo p = Some info \<and> height info = Some h \<longrightarrow> h \<le> mh'"
        "mh' = mh \<and> mp' = mp \<or>
         mh < mh' \<and> (\<exists>p\<in>set qs. \<exists>info. mp' = Some p \<and> map_of pinfo p = Some info \<and>
                    height info = Some mh')"
        by blast
      have "scan_peers pinfo (q # qs) (mh, mp) = Inr (mh', mp')"
        using Some h False r(1) by simp
      moreover have "\<forall>p\<in>set (q # qs). \<forall>info h. map_of pinfo p = Some info \<and> height info = Some h \<longrightarrow> h \<le> mh'"
        using r(2,3) Some h False by auto
      moreover have "mh' = mh \<and> mp' = mp \<or>
         mh < mh' \<and> (\<exists>p\<in>set (q # qs). \<exists>info. mp' = Some p \<and> map_of pinfo p = Some info \<and>
                    height info = Some mh')"
        using r(4) by auto
      ultimately show ?thesis using r(2) by (intro exI [of _ mh'] exI [of _ mp']) simp
    qed
  qed
qed

text \<open>
  When every known peer has a height and a non-empty identifier, conflict resolution
  either sends \<^verbatim>\<open>getdata\<close> to a peer whose height exceeds the local length and is the
  greatest in the table, leaving \<^verbatim>\<open>synced\<close> alone, or finds no height above the local
  length, sets \<^verbatim>\<open>synced\<close> and sends nothing.
\<close>

lemma resolve_conflicts_selects:
  assumes "\<forall>p\<in>set (peers s). \<forall>info. map_of (peer_info s) p = Some info \<longrightarrow> height info \<noteq> None"
    and "[] \<notin> set (peers s)"
  shows "(\<exists>p info h. p \<in> set (peers s) \<and> map_of (peer_info s) p = Some info \<and>
            height info = Some h \<and> int (length (chain s)) < h \<and>
            (\<forall>q\<in>set (peers s). \<forall>i k. map_of (peer_info s) q = Some i \<and> height i = Some k \<longrightarrow> k \<le> h) \<and>
            resolve_conflicts s =
              (None, s\<lparr>outbox := outbox s @ [\<lparr>e_type = ''getdata'', e_identifier = identifier s,
                                               e_message = Blank, e_target = p\<rparr>],
                       ticks := Suc (ticks s),
                       peer_info := AList.update p (info\<lparr>lastsend := clock s (ticks s)\<rparr>) (peer_info s)\<rparr>))
         \<or>
         ((\<forall>q\<in>set (peers s). \<forall>i k. map_of (peer_info s) q = Some i \<and> height i = Some k \<longrightarrow>
              k \<le> int (length (chain s))) \<and>
          resolve_conflicts s = (None, s\<lparr>synced := True\<rparr>))"
proof -
  from scan_peers_result [OF assms(1), of "int (length (chain s))" None]
  obtain mh' mp' where r:
    "scan_peers (peer_info s) (peers s) (int (length (chain s)), None) = Inr (mh', mp')"
    "int (length (chain s)) \<le> mh'"
    "\<forall>p\<in>set (peers s). \<forall>info h. map_of (peer_info s) p = Some info \<and> height info = Some h \<longrightarrow> h \<le> mh'"
    "mh' = int (length (chain s)) \<and> mp' = None \<or>
     int (length (chain s)) < mh' \<and> (\<exists>p\<in>set (peers s). \<exists>info. mp' = Some p \<and>
        map_of (peer_info s) p = Some info \<and> height info = Some mh')"
    by blast
  from r(4) show ?thesis
  proof
    assume a: "mh' = int (length (chain s)) \<and> mp' = None"
    then have "resolve_conflicts s = (None, s\<lparr>synced := True\<rparr>)"
      using r(1) by (simp add: resolve_conflicts_def)
    with a r(3) show ?thesis by blast
  next
    assume "int (length (chain s)) < mh' \<and> (\<exists>p\<in>set (peers s). \<exists>info. mp' = Some p \<and>
        map_of (peer_info s) p = Some info \<and> height info = Some mh')"
    then obtain p info where p: "int (length (chain s)) < mh'" "p \<in> set (peers s)" "mp' = Some p"
      "map_of (peer_info s) p = Some info" "height info = Some mh'" by blast
    from p(2) assms(2) have ne: "p \<noteq> []" by auto
    have "resolve_conflicts s = send s ''getdata'' Blank p"
      using r(1) p(3) ne by (simp add: resolve_conflicts_def)
    then have "resolve_conflicts s =
              (None, s\<lparr>outbox := outbox s @ [\<lparr>e_type = ''getdata'', e_identifier = identifier s,
                                               e_message = Blank, e_target = p\<rparr>],
                       ticks := Suc (ticks s),
                       peer_info := AList.update p (info\<lparr>lastsend := clock s (ticks s)\<rparr>) (peer_info s)\<rparr>)"
      using send_to_registered [OF ne p(4)] by simp
    with p r(3) show ?thesis by blast
  qed
qed

lemma chain_resolve_conflicts: "chain (snd (resolve_conflicts s)) = chain s"
  by (simp add: resolve_conflicts_def chain_send split: sum.splits option.splits prod.splits)

text \<open>
  C1 at a failing input. A node without peers receives a \<^verbatim>\<open>version\<close> frame whose sender
  identifier is the empty string and whose height is 5, and registers the sender. The
  node holds one block, so a known peer claims a greater height; yet conflict resolution
  sets \<^verbatim>\<open>synced\<close> and sends nothing, the empty identifier being false in
  \<^verbatim>\<open>if max_height_peer\<close>.
\<close>

theorem resolve_conflicts_nameless_peer:
  "recv (BlockchainNode_handle_data (valid_chain sample_validator)) newcomer (Framed nameless_version) =
     (None, haunted) \<and>
   map_option height (map_of (peer_info haunted) []) = Some (Some 5) \<and>
   length (chain haunted) = 1 \<and> \<not> synced haunted \<and>
   resolve_conflicts haunted = (None, haunted\<lparr>synced := True\<rparr>) \<and>
   outbox (haunted\<lparr>synced := True\<rparr>) = outbox haunted"
proof -
  have n: "Node_handle_data newcomer nameless_version =
     (None, haunted\<lparr>peer_info := [([], \<lparr>peer_identifier = [], lastrecv = 2000, lastsend = 2002,
                                        height = Some 5\<rparr>)], ticks := 3\<rparr>)"
    by (simp add: Node_handle_data_def nameless_version_def newcomer_def haunted_def alice_def
        loads_message_def get_key_def register_peer_def send_def set_lastsend_def then_do_simps
        Let_def no_keys_def block0_def)
  have b: "BlockchainNode_handle_data (valid_chain sample_validator) newcomer nameless_version =
     (None, haunted\<lparr>peer_info := [([], \<lparr>peer_identifier = [], lastrecv = 2000, lastsend = 2002,
                                        height = Some 5\<rparr>)], ticks := 3\<rparr>)"
    unfolding BlockchainNode_handle_data_def n then_do_simps
    by (simp add: nameless_version_def loads_message_def Let_def)
  have r: "recv (BlockchainNode_handle_data (valid_chain sample_validator)) newcomer
      (Framed nameless_version) = (None, haunted)"
    unfolding recv_def packet.case b then_do_simps
    by (simp add: nameless_version_def newcomer_def haunted_def alice_def set_lastrecv_def Let_def)
  have c: "resolve_conflicts haunted = (None, haunted\<lparr>synced := True\<rparr>)"
    by (simp add: haunted_def newcomer_def alice_def resolve_conflicts_def)
  show ?thesis using r c by (simp add: haunted_def newcomer_def alice_def)
qed

section \<open>Chain replacement and new blocks\<close>

lemma chain_note_height: "chain (snd (note_height s p h)) = chain s"
  by (simp add: note_height_def set_height_def split: option.splits)

text \<open>
  A \<^verbatim>\<open>chain\<close> message whose chain passes validation replaces the local chain, whatever
  the lengths of the two.
\<close>

lemma chain_message_commits:
  assumes "e_type data = ''chain''" and "e_message data = Dumps m"
    and "p_chain m = Some c" and "p_tx_info m = Some t" and "valid_chain' c"
    and "note_height s (e_identifier data) (Some (int (length c))) = (None, s1)"
  shows "BlockchainNode_handle_data valid_chain' s data =
           (None, s1\<lparr>chain := c, tx_info := merge_dicts (tx_info s1) t, synced := True\<rparr>)"
proof -
  have "Node_handle_data s data = (None, s)"
    using assms(1,2) by (intro Node_handle_data_other) simp_all
  then show ?thesis using assms
    by (simp add: BlockchainNode_handle_data_def then_do_simps loads_message_def item_def)
qed

text \<open>
  C2 at a failing input. The sample node holds two blocks; a \<^verbatim>\<open>chain\<close> message carrying
  the genesis block alone, which is a valid chain, replaces them: the new chain is
  shorter than the one it replaces.
\<close>

theorem chain_message_shorter_chain:
  "valid_chain sample_validator [block0, block1] \<and> valid_chain sample_validator [block0] \<and>
   BlockchainNode_handle_data (valid_chain sample_validator) (alice\<lparr>chain := [block0, block1]\<rparr>)
     (frame_from_bob ''chain'' (Dumps (no_keys\<lparr>p_chain := Some [block0], p_tx_info := Some []\<rparr>)) ''h1:a'') =
     (None, alice\<lparr>chain := [block0], synced := True\<rparr>) \<and>
   length (chain (alice\<lparr>chain := [block0], synced := True\<rparr>)) <
     length (chain (alice\<lparr>chain := [block0, block1]\<rparr>))"
proof -
  have v1: "valid_chain sample_validator [block0, block1]"
    by (simp add: valid_chain_def valid_block_def sample_validator_def block0_def block1_def)
  have v0: "valid_chain sample_validator [block0]"
    by (simp add: valid_chain_def block0_def)
  have n: "Node_handle_data (alice\<lparr>chain := [block0, block1]\<rparr>)
     (frame_from_bob ''chain'' (Dumps (no_keys\<lparr>p_chain := Some [block0], p_tx_info := Some []\<rparr>)) ''h1:a'') =
     (None, alice\<lparr>chain := [block0, block1]\<rparr>)"
    by (simp add: Node_handle_data_def frame_from_bob_def loads_message_def then_do_simps Let_def alice_def)
  have "BlockchainNode_handle_data (valid_chain sample_validator) (alice\<lparr>chain := [block0, block1]\<rparr>)
     (frame_from_bob ''chain'' (Dumps (no_keys\<lparr>p_chain := Some [block0], p_tx_info := Some []\<rparr>)) ''h1:a'') =
     (None, alice\<lparr>chain := [block0], synced := True\<rparr>)"
    unfolding BlockchainNode_handle_data_def n then_do_simps
    using v0
    by (simp add: frame_from_bob_def loads_message_def item_def then_do_simps Let_def no_keys_def
        note_height_def set_height_def merge_dicts_def alice_def bob_entry_def)
  with v0 v1 show ?thesis by simp
qed

lemma valid_blocks_after_last_two:
  "valid_blocks_after B previous_block (xs @ [x, y]) \<Longrightarrow> valid_block B y x"
  by (induction xs arbitrary: previous_block) auto

lemma not_valid_block_self: "\<not> valid_block B b b"
  by (simp add: valid_block_def)

lemma no_valid_chain_repeats_last: "\<not> valid_chain B (c @ [b, b])"
proof (cases c)
  case Nil
  then show ?thesis by (simp add: valid_chain_def not_valid_block_self)
next
  case (Cons g rest)
  show ?thesis
  proof
    assume "valid_chain B (c @ [b, b])"
    then have "valid_blocks_after B g (rest @ [b, b])" using Cons by (auto simp: valid_chain_def)
    then have "valid_block B b b" by (rule valid_blocks_after_last_two)
    then show False by (simp add: not_valid_block_self)
  qed
qed

lemma valid_blocks_after_last:
  "valid_blocks_after B previous_block (xs @ [y]) \<Longrightarrow> valid_block B y (last (previous_block # xs))"
  by (induction xs arbitrary: previous_block) auto

lemma valid_chain_last_link:
  assumes "valid_chain B (c @ [b])" and "c \<noteq> []"
  shows "previous_hash (header b) = v_hash B (header (last c))"
proof -
  obtain g rest where c: "c = g # rest" using assms(2) by (cases c) auto
  with assms(1) have "valid_blocks_after B g (rest @ [b])" by (auto simp: valid_chain_def)
  then have "valid_block B b (last (g # rest))" by (rule valid_blocks_after_last)
  then show ?thesis using c by (simp add: valid_block_def)
qed

lemma addblock_chain_cases:
  assumes "e_type data = ''addblock''" and "e_message data = Dumps m" and "p_block m = Some b"
  shows "chain (snd (BlockchainNode_handle_data valid_chain' s data)) = chain s \<or>
         chain (snd (BlockchainNode_handle_data valid_chain' s data)) = chain s @ [b] \<and>
         valid_chain' (chain s @ [b])"
proof -
  have n: "Node_handle_data s data = (None, s)"
    using assms(1,2) by (intro Node_handle_data_other) simp_all
  show ?thesis
  proof (cases "p_height m")
    case None
    then show ?thesis using assms n
      by (simp add: BlockchainNode_handle_data_def then_do_simps loads_message_def item_def)
  next
    case (Some h)
    show ?thesis
    proof (cases "p_tx_info m")
      case None
      then show ?thesis using assms n Some
        by (simp add: BlockchainNode_handle_data_def then_do_simps loads_message_def item_def)
    next
      case t: (Some t)
      obtain r s1 where nh: "note_height s (e_identifier data) (Some h) = (r, s1)"
        by (cases "note_height s (e_identifier data) (Some h)")
      have c1: "chain s1 = chain s" using chain_note_height [of s "e_identifier data" "Some h"] nh by simp
      show ?thesis
      proof (cases r)
        case None
        show ?thesis
        proof (cases "valid_chain' (chain s1 @ [b])")
          case True
          then show ?thesis using assms n Some t nh None c1
            by (simp add: BlockchainNode_handle_data_def then_do_simps loads_message_def item_def
                Let_def)
        next
          case False
          then have "BlockchainNode_handle_data valid_chain' s data = resolve_conflicts s1"
            using assms n Some t nh None
            by (simp add: BlockchainNode_handle_data_def then_do_simps loads_message_def item_def
                Let_def)
          then show ?thesis using chain_resolve_conflicts [of s1] c1 by simp
        qed
      next
        case (Some e)
        then show ?thesis using assms n \<open>p_height m = Some h\<close> t nh c1
          by (simp add: BlockchainNode_handle_data_def then_do_simps loads_message_def item_def)
      qed
    qed
  qed
qed

text \<open>
  C5. If handling an \<^verbatim>\<open>addblock\<close> message has appended its block, handling the same
  message again leaves the chain as it is: the chain with the block appended twice is
  not valid, since a block cannot follow itself. Its index is not its own successor, and
  its \<^verbatim>\<open>previous_hash\<close>, the hash of the block before it, is not the hash of its own
  header unless the hash function maps the two headers to one digest.
\<close>

theorem addblock_twice_chain_unchanged:
  assumes "e_type data = ''addblock''" and "e_message data = Dumps m" and "p_block m = Some b"
    and "BlockchainNode_handle_data (valid_chain B) s data = (None, s1)"
    and "chain s1 = chain s @ [b]"
  shows "chain (snd (BlockchainNode_handle_data (valid_chain B) s1 data)) = chain s1 \<and>
         \<not> valid_chain B (chain s1 @ [b]) \<and>
         (chain s \<noteq> [] \<and> v_hash B (header b) \<noteq> v_hash B (header (last (chain s))) \<longrightarrow>
            previous_hash (header b) \<noteq> v_hash B (header b))"
proof -
  have nv: "\<not> valid_chain B (chain s1 @ [b])"
    using no_valid_chain_repeats_last [of B "chain s" b] assms(5) by simp
  have again: "chain (snd (BlockchainNode_handle_data (valid_chain B) s1 data)) = chain s1"
    using addblock_chain_cases [OF assms(1,2,3), of "valid_chain B" s1] nv by blast
  have "valid_chain B (chain s @ [b])"
    using addblock_chain_cases [OF assms(1,2,3), of "valid_chain B" s] assms(4,5) by auto
  then have "previous_hash (header b) = v_hash B (header (last (chain s)))" if "chain s \<noteq> []"
    using that by (rule valid_chain_last_link)
  then show ?thesis using nv again by auto
qed

text \<open>
  C5 on the sample node: the first \<^verbatim>\<open>addblock\<close> extends the genesis block, the second
  changes nothing.
\<close>

theorem addblock_twice_chain_unchanged_witness:
  "e_type addblock1 = ''addblock'' \<and>
   e_message addblock1 =
     Dumps (no_keys\<lparr>p_block := Some block1, p_height := Some 2, p_tx_info := Some []\<rparr>) \<and>
   p_block (no_keys\<lparr>p_block := Some block1, p_height := Some 2, p_tx_info := Some []\<rparr>) = Some block1 \<and>
   BlockchainNode_handle_data (valid_chain sample_validator) alice addblock1 =
     (None, alice\<lparr>chain := [block0, block1],
                  peer_info := [(''h2:b'', bob_entry\<lparr>height := Some 2\<rparr>)]\<rparr>) \<and>
   chain (alice\<lparr>chain := [block0, block1],
                peer_info := [(''h2:b'', bob_entry\<lparr>height := Some 2\<rparr>)]\<rparr>) = chain alice @ [block1] \<and>
   chain (snd (BlockchainNode_handle_data (valid_chain sample_validator)
     (alice\<lparr>chain := [block0, block1], peer_info := [(''h2:b'', bob_entry\<lparr>height := Some 2\<rparr>)]\<rparr>)
     addblock1)) = [block0, block1] \<and>
   \<not> valid_chain sample_validator [block0, block1, block1] \<and>
   chain alice \<noteq> [] \<and>
   v_hash sample_validator (header block1) \<noteq> v_hash sample_validator (header (last (chain alice))) \<and>
   previous_hash (header block1) \<noteq> v_hash sample_validator (header block1)"
proof -
  have v1: "valid_chain sample_validator [block0, block1]"
    by (simp add: valid_chain_def valid_block_def sample_validator_def block0_def block1_def)
  have n: "Node_handle_data alice addblock1 = (None, alice)"
    by (simp add: Node_handle_data_def addblock1_def frame_from_bob_def loads_message_def
        then_do_simps Let_def alice_def)
  have first: "BlockchainNode_handle_data (valid_chain sample_validator) alice addblock1 =
     (None, alice\<lparr>chain := [block0, block1],
                  peer_info := [(''h2:b'', bob_entry\<lparr>height := Some 2\<rparr>)]\<rparr>)"
    unfolding BlockchainNode_handle_data_def n then_do_simps
    using v1
    by (simp add: addblock1_def frame_from_bob_def loads_message_def item_def then_do_simps Let_def
        no_keys_def note_height_def set_height_def merge_dicts_def alice_def)
  have a: "e_type addblock1 = ''addblock''" by (simp add: addblock1_def frame_from_bob_def)
  have b: "e_message addblock1 =
      Dumps (no_keys\<lparr>p_block := Some block1, p_height := Some 2, p_tx_info := Some []\<rparr>)"
    by (simp add: addblock1_def frame_from_bob_def)
  have c: "p_block (no_keys\<lparr>p_block := Some block1, p_height := Some 2, p_tx_info := Some []\<rparr>) = Some block1"
    by simp
  have d: "chain (alice\<lparr>chain := [block0, block1],
                  peer_info := [(''h2:b'', bob_entry\<lparr>height := Some 2\<rparr>)]\<rparr>) = chain alice @ [block1]"
    by (simp add: alice_def)
  have e: "chain alice = [block0]" by (simp add: alice_def)
  have f: "v_hash sample_validator (header block1) \<noteq>
      v_hash sample_validator (header (last (chain alice)))"
    by (simp add: alice_def sample_validator_def block0_def block1_def)
  from addblock_twice_chain_unchanged [OF a b c first d] a b c first d e f
  show ?thesis by simp
qed

section \<open>The peer set and the peer table stay in step\<close>

text \<open>
  Registration adds a peer to both, the sweep removes a peer from both, and every other
  method only rewrites the entry of a key that is there. So a node that starts with no
  peers, as \<^verbatim>\<open>__init__\<close> leaves it, is in step after any run of the receive loop, with
  either handler; on such a node the sweep raises nothing.
\<close>

lemma same_peers_refl: "same_peers s s"
  by (simp add: same_peers_def)

lemma same_peers_trans: "same_peers s s1 \<Longrightarrow> same_peers s1 s2 \<Longrightarrow> same_peers s s2"
  by (simp add: same_peers_def)

lemma same_peers_in_step: "same_peers s s' \<Longrightarrow> in_step s \<Longrightarrow> in_step s'"
  by (simp add: same_peers_def in_step_def)

lemma same_peers_set_lastsend: "same_peers s (snd (set_lastsend s p))"
  by (simp add: set_lastsend_def Let_def same_peers_def keys_update_known split: option.splits)

lemma same_peers_set_lastrecv: "same_peers s (snd (set_lastrecv s p))"
  by (simp add: set_lastrecv_def Let_def same_peers_def keys_update_known split: option.splits)

lemma same_peers_set_height: "same_peers s (snd (set_height s p h))"
  by (simp add: set_height_def same_peers_def keys_update_known split: option.splits)

lemma same_peers_note_height: "same_peers s (snd (note_height s p h))"
  by (simp add: note_height_def same_peers_set_height same_peers_refl)

lemma same_peers_then_do:
  assumes "same_peers s (snd r)" and "\<And>s1. same_peers s1 (snd (f s1))"
  shows "same_peers s (snd (then_do r f))"
proof (cases r)
  case (Pair e s1)
  then show ?thesis using assms same_peers_trans [of s s1 "snd (f s1)"]
    by (cases e) (simp_all add: then_do_simps)
qed

lemma same_peers_touch_all: "same_peers s (snd (touch_all ps s))"
proof (induction ps arbitrary: s)
  case Nil
  then show ?case by (simp add: same_peers_refl)
next
  case (Cons p ps)
  show ?case
    unfolding touch_all.simps
    by (rule same_peers_then_do [OF same_peers_set_lastsend Cons.IH])
qed

lemma same_peers_send: "same_peers s (snd (send s type msg target))"
proof -
  let ?s1 = "s\<lparr>outbox := outbox s @ [\<lparr>e_type = type, e_identifier = identifier s,
      e_message = msg, e_target = target\<rparr>]\<rparr>"
  have a: "same_peers s ?s1" by (simp add: same_peers_def)
  have "same_peers ?s1 (snd (send s type msg target))"
  proof (cases "target = []")
    case True
    have "snd (send s type msg target) = snd (touch_all (peers ?s1) ?s1)"
      using True by (simp add: send_def Let_def)
    then show ?thesis using same_peers_touch_all [of ?s1 "peers ?s1"] by simp
  next
    case False
    have "snd (send s type msg target) = snd (set_lastsend ?s1 target)"
      using False by (simp add: send_def Let_def)
    then show ?thesis using same_peers_set_lastsend [of ?s1 target] by simp
  qed
  with a show ?thesis by (rule same_peers_trans)
qed

lemma same_peers_resolve_conflicts: "same_peers s (snd (resolve_conflicts s))"
proof -
  have a: "same_peers s (s\<lparr>synced := True\<rparr>)" by (simp add: same_peers_def)
  show ?thesis
    using a same_peers_send [of s "''getdata''" Blank]
    by (simp add: resolve_conflicts_def same_peers_refl split: sum.splits option.splits prod.splits)
qed

lemma in_step_register_peer:
  assumes "in_step s"
  shows "in_step (snd (register_peer s ident h))"
proof (cases "ident \<in> set (peers s)")
  case True
  then show ?thesis using assms by (simp add: register_peer_def)
next
  case False
  with assms have "ident \<notin> set (map fst (peer_info s))" by (simp add: in_step_def)
  then have "map fst (AList.update ident v (peer_info s)) = map fst (peer_info s) @ [ident]" for v
    by (simp add: AList.update_keys)
  then show ?thesis using False assms by (simp add: register_peer_def in_step_def)
qed

lemma in_step_then_do:
  assumes "in_step (snd r)" and "\<And>s1. in_step s1 \<Longrightarrow> in_step (snd (f s1))"
  shows "in_step (snd (then_do r f))"
proof (cases r)
  case (Pair e s1)
  then show ?thesis using assms by (cases e) (simp_all add: then_do_simps)
qed

lemma in_step_send: "in_step s \<Longrightarrow> in_step (snd (send s type msg target))"
  using same_peers_send same_peers_in_step by blast

lemma in_step_Node_handle_data:
  assumes "in_step s"
  shows "in_step (snd (Node_handle_data s data))"
proof (cases "loads_message (e_message data)")
  case (Inl e)
  then show ?thesis using assms by (simp add: Node_handle_data_def)
next
  case (Inr msg)
  define replies where "replies = (\<lambda>s1.
       then_do (send s1 ''verack'' Blank (e_identifier data))
         (\<lambda>s2. send s2 ''version''
            (Dumps (no_keys\<lparr>p_height := Some (int (length (chain s2)))\<rparr>)) (e_identifier data)))"
  define first where "first =
      (if e_type data = ''version'' then
         (case get_key p_height msg of
            Inl e \<Rightarrow> (Some e, s)
          | Inr h \<Rightarrow>
              (case register_peer s (e_identifier data) h of
                 (True, s1) \<Rightarrow> replies s1
               | (False, s1) \<Rightarrow> (None, s1)))
       else if e_type data = ''verack'' then (None, s\<lparr>ready := True\<rparr>)
       else (None, s))"
  define second where "second = (\<lambda>s3. if ready s3 then
       (if e_type data = ''heartbeat'' then send s3 ''heartbeatack'' Blank (e_identifier data)
        else (None, s3))
     else (None, s3))"
  have unfolded: "Node_handle_data s data = then_do first second"
    unfolding first_def second_def replies_def
    using Inr by (simp add: Node_handle_data_def Let_def)
  have rep: "in_step (snd (replies s1))" if "in_step s1" for s1
    unfolding replies_def by (intro in_step_then_do in_step_send that)
  have rd: "in_step (s\<lparr>ready := True\<rparr>)" using assms by (simp add: in_step_def)
  have reg: "in_step (snd (case register_peer s (e_identifier data) h of
                 (True, s1) \<Rightarrow> replies s1
               | (False, s1) \<Rightarrow> (None, s1)))" for h
  proof (cases "register_peer s (e_identifier data) h")
    case (Pair b s1)
    have "in_step s1" using in_step_register_peer [OF assms, of "e_identifier data" h] Pair by simp
    then show ?thesis using Pair rep by (cases b) simp_all
  qed
  have "in_step (snd first)"
    unfolding first_def using assms rd reg by (simp split: sum.splits)
  moreover have "in_step (snd (second s3))" if "in_step s3" for s3
    unfolding second_def using that by (simp add: in_step_send)
  ultimately show ?thesis unfolding unfolded by (rule in_step_then_do)
qed

lemma in_step_note_height: "in_step s \<Longrightarrow> in_step (snd (note_height s p h))"
  using same_peers_note_height same_peers_in_step by blast

lemma in_step_resolve_conflicts: "in_step s \<Longrightarrow> in_step (snd (resolve_conflicts s))"
  using same_peers_resolve_conflicts same_peers_in_step by blast

lemma in_step_BlockchainNode_handle_data:
  assumes "in_step s"
  shows "in_step (snd (BlockchainNode_handle_data valid_chain' s data))"
  unfolding BlockchainNode_handle_data_def
proof (rule in_step_then_do [OF in_step_Node_handle_data [OF assms]])
  fix s1 assume s1: "in_step s1"
  have commit: "in_step (s2\<lparr>chain := c, tx_info := t, synced := True\<rparr>)"
      "in_step (s2\<lparr>chain := c, tx_info := t\<rparr>)" if "in_step s2" for s2 c t
    using that by (simp_all add: in_step_def)
  have chain_branch: "in_step (snd (then_do (note_height s1 (e_identifier data) h) (\<lambda>s2.
       if valid_chain' c then (None, s2\<lparr>chain := c, tx_info := merge_dicts (tx_info s2) t, synced := True\<rparr>)
       else resolve_conflicts s2)))" for h c t
    by (rule in_step_then_do [OF in_step_note_height [OF s1]])
       (simp add: commit in_step_resolve_conflicts)
  have block_branch: "in_step (snd (then_do (note_height s1 (e_identifier data) h) (\<lambda>s2.
       let new_chain = chain s2 @ [b] in
       if valid_chain' new_chain then (None, s2\<lparr>chain := new_chain, tx_info := merge_dicts (tx_info s2) t\<rparr>)
       else resolve_conflicts s2)))" for h b t
    by (rule in_step_then_do [OF in_step_note_height [OF s1]])
       (simp add: commit in_step_resolve_conflicts Let_def)
  show "in_step (snd (let msg_type = e_type data; sender = e_identifier data in
       case loads_message (e_message data) of
         Inl e \<Rightarrow> (Some e, s1)
       | Inr msg \<Rightarrow>
           if msg_type = ''getdata'' then
             send s1 ''chain''
               (Dumps (no_keys\<lparr>p_chain := Some (chain s1), p_tx_info := Some (tx_info s1)\<rparr>)) sender
           else if msg_type = ''getheaders'' then
             send s1 ''headers'' (Dumps (no_keys\<lparr>p_headers := Some (map header (chain s1))\<rparr>)) sender
           else if msg_type = ''chain'' then
             (case item p_chain msg of
                Inl e \<Rightarrow> (Some e, s1)
              | Inr new_chain \<Rightarrow>
                  (case item p_tx_info msg of
                     Inl e \<Rightarrow> (Some e, s1)
                   | Inr new_tx_info \<Rightarrow>
                       then_do (note_height s1 sender (Some (int (length new_chain)))) (\<lambda>s1.
                         if valid_chain' new_chain then
                           (None, s1\<lparr>chain := new_chain,
                                     tx_info := merge_dicts (tx_info s1) new_tx_info,
                                     synced := True\<rparr>)
                         else resolve_conflicts s1)))
           else if msg_type = ''addblock'' then
             (case item p_block msg of
                Inl e \<Rightarrow> (Some e, s1)
              | Inr new_block \<Rightarrow>
                  (case item p_height msg of
                     Inl e \<Rightarrow> (Some e, s1)
                   | Inr h \<Rightarrow>
                       (case item p_tx_info msg of
                          Inl e \<Rightarrow> (Some e, s1)
                        | Inr new_tx_info \<Rightarrow>
                            then_do (note_height s1 sender (Some h)) (\<lambda>s1.
                              let new_chain = chain s1 @ [new_block] in
                              if valid_chain' new_chain then
                                (None, s1\<lparr>chain := new_chain,
                                          tx_info := merge_dicts (tx_info s1) new_tx_info\<rparr>)
                              else resolve_conflicts s1))))
           else (None, s1)))"
    using s1 chain_branch block_branch
    by (simp add: Let_def in_step_send split: sum.splits)
qed

lemma in_step_recv:
  assumes "in_step s" and "\<And>s d. in_step s \<Longrightarrow> in_step (snd (handle_data s d))"
  shows "in_step (snd (recv handle_data s packet))"
proof (cases packet)
  case (Framed data)
  have "in_step (snd (then_do (handle_data s data)
                 (\<lambda>s1. let sender = e_identifier data in
                        if sender \<in> set (peers s1) then set_lastrecv s1 sender
                        else (None, s1))))"
  proof (rule in_step_then_do [OF assms(2) [OF assms(1)]])
    fix s1 assume "in_step s1"
    then show "in_step (snd (let sender = e_identifier data in
                        if sender \<in> set (peers s1) then set_lastrecv s1 sender
                        else (None, s1)))"
      using same_peers_in_step [OF same_peers_set_lastrecv] by (simp add: Let_def)
  qed
  then show ?thesis using Framed assms(1) by (simp add: recv_def)
qed (use assms(1) in \<open>simp_all add: recv_def\<close>)

lemma in_step_sweep:
  assumes "in_step s"
  shows "fst (sweep s) = None \<and> in_step (snd (sweep s))"
proof -
  have d: "distinct (map fst (peer_info s))" and dp: "distinct (peers s)"
    and eq: "set (map fst (peer_info s)) = set (peers s)"
    using assms by (simp_all add: in_step_def)
  have sub: "fst ` set (peer_info s) \<subseteq> set (peers s)" using eq by auto
  have "set (map fst (filter (\<lambda>(k, info). \<not> lastsend info - lastrecv info > 60 * 30) (peer_info s))) =
        set (filter (\<lambda>p. p \<notin> set (disconnected_peers s)) (peers s))"
  proof (intro set_eqI iffI)
    fix p
    assume "p \<in> set (map fst (filter (\<lambda>(k, info). \<not> lastsend info - lastrecv info > 60 * 30) (peer_info s)))"
    then obtain info where i: "(p, info) \<in> set (peer_info s)" "\<not> lastsend info - lastrecv info > 1800"
      by auto
    from i(1) d have m: "map_of (peer_info s) p = Some info" by simp
    from i(1) eq have "p \<in> set (peers s)" by force
    moreover have "p \<notin> set (disconnected_peers s)"
      using disconnected_iff [OF d, of p] m i(2) by simp
    ultimately show "p \<in> set (filter (\<lambda>p. p \<notin> set (disconnected_peers s)) (peers s))" by simp
  next
    fix p
    assume "p \<in> set (filter (\<lambda>p. p \<notin> set (disconnected_peers s)) (peers s))"
    then have p: "p \<in> set (peers s)" "p \<notin> set (disconnected_peers s)" by simp_all
    from p(1) eq obtain info where i: "(p, info) \<in> set (peer_info s)" by force
    with d have "map_of (peer_info s) p = Some info" by simp
    with p(2) disconnected_iff [OF d, of p] have "\<not> lastsend info - lastrecv info > 1800" by simp
    with i show "p \<in> set (map fst (filter (\<lambda>(k, info). \<not> lastsend info - lastrecv info > 60 * 30) (peer_info s)))"
      by force
  qed
  then show ?thesis
    using sweep_result [OF d sub] d dp by (simp add: in_step_def distinct_map_filter)
qed

lemma in_step_run:
  assumes "in_step s" and "\<And>s d. in_step s \<Longrightarrow> in_step (snd (handle_data s d))"
  shows "in_step (snd (run handle_data s evs))"
  using assms(1)
proof (induction evs arbitrary: s)
  case Nil
  then show ?case by simp
next
  case (Cons ev evs)
  obtain s1 where sw: "sweep s = (None, s1)" and s1: "in_step s1"
    using in_step_sweep [OF Cons.prems] by (cases "sweep s") auto
  show ?case
  proof (cases "keep_listening s")
    case False
    then show ?thesis using Cons.prems by simp
  next
    case True
    show ?thesis
    proof (cases ev)
      case (Inbound packet)
      obtain r s2 where rc: "recv handle_data s1 packet = (r, s2)" by (cases "recv handle_data s1 packet")
      have "in_step (snd (recv handle_data s1 packet))"
        by (rule in_step_recv [OF s1]) (rule assms(2))
      then have s2: "in_step s2" using rc by simp
      show ?thesis using True sw Inbound rc s2 Cons.IH [OF s2] by (cases r) simp_all
    next
      case QueueEmpty
      then show ?thesis using True sw Cons.IH [OF s1] by simp
    next
      case StopCalled
      have "in_step (s1\<lparr>keep_listening := False\<rparr>)" using s1 by (simp add: in_step_def)
      then show ?thesis using True sw StopCalled Cons.IH by simp
    qed
  qed
qed

lemma in_step_initially: "peer_info s = [] \<Longrightarrow> peers s = [] \<Longrightarrow> in_step s"
  by (simp add: in_step_def)

text \<open>What the theorems on the sweep and on broadcasts ask of the node holds when it is in step.\<close>

lemma in_step_gives:
  assumes "in_step s"
  shows "distinct (map fst (peer_info s))" and "fst ` set (peer_info s) \<subseteq> set (peers s)"
    and "set (peers s) \<subseteq> fst ` set (peer_info s)"
  using assms by (auto simp: in_step_def)

text \<open>A newly registered peer has \<^verbatim>\<open>lastsend = 0\<close> and a clock reading as \<^verbatim>\<open>lastrecv\<close>.\<close>

lemma register_peer_entry:
  "ident \<notin> set (peers s) \<Longrightarrow>
   map_of (peer_info (snd (register_peer s ident h))) ident =
     Some \<lparr>peer_identifier = ident, lastrecv = clock s (ticks s), lastsend = 0, height = h\<rparr>"
  by (simp add: register_peer_def AList.update_conv')

section \<open>Proof of work\<close>

text \<open>
  Started at or below a valid proof, the loop returns, and what it returns is the first
  valid proof from its starting point on. The induction is on the distance to the known
  valid proof.
\<close>

lemma proof_search_finds:
  "p \<le> n \<Longrightarrow> vp h n \<Longrightarrow>
   \<exists>r. proof_search vp h p = Some r \<and> p \<le> r \<and> r \<le> n \<and> vp h r \<and> (\<forall>q. p \<le> q \<and> q < r \<longrightarrow> \<not> vp h q)"
proof (induction "nat (n - p)" arbitrary: p)
  case 0
  then have "p = n" by simp
  with 0 show ?case by (subst proof_search.simps) auto
next
  case (Suc k)
  show ?case
  proof (cases "vp h p")
    case True
    then show ?thesis using Suc.prems by (subst proof_search.simps) auto
  next
    case False
    from Suc.prems False have "p \<noteq> n" by auto
    with Suc.prems have le: "p + 1 \<le> n" by simp
    from Suc.hyps(2) have "k = nat (n - (p + 1))" by simp
    from Suc.hyps(1)[OF this le Suc.prems(2)]
    obtain r where r: "proof_search vp h (p + 1) = Some r" "p + 1 \<le> r" "r \<le> n" "vp h r"
      "\<forall>q. p + 1 \<le> q \<and> q < r \<longrightarrow> \<not> vp h q" by blast
    have "proof_search vp h p = Some r"
      using False r(1) by (subst proof_search.simps) simp
    moreover have "\<forall>q. p \<le> q \<and> q < r \<longrightarrow> \<not> vp h q"
    proof (intro allI impI)
      fix q assume q: "p \<le> q \<and> q < r"
      show "\<not> vp h q"
      proof (cases "q = p")
        case True with False show ?thesis by simp
      next
        case False
        with q have "p + 1 \<le> q \<and> q < r" by simp
        with r(5) show ?thesis by blast
      qed
    qed
    ultimately show ?thesis using r by auto
  qed
qed

text \<open>
  C8. For every previous hash for which some non-negative integer is a valid proof, the
  search of \<^verbatim>\<open>proof_of_work\<close> returns; the proof it returns is non-negative and valid,
  and no smaller non-negative integer is valid.
\<close>

theorem proof_of_work_least:
  assumes "0 \<le> n" and "valid_proof prev_hash n"
  shows "\<exists>p. proof_of_work valid_proof prev_hash = Some p \<and> 0 \<le> p \<and> valid_proof prev_hash p \<and>
           (\<forall>q. 0 \<le> q \<and> q < p \<longrightarrow> \<not> valid_proof prev_hash q)"
  using proof_search_finds [of 0 n valid_proof prev_hash] assms unfolding proof_of_work_def by blast

text \<open>
  C8 at a concrete predicate: proofs are valid from the length of the hash on, so the
  search on \<^verbatim>\<open>'abc'\<close> stops at 3.
\<close>

theorem proof_of_work_least_witness:
  "(0::int) \<le> 7 \<and> (\<lambda>h p. int (length h) \<le> p) ''abc'' 7 \<and>
   proof_of_work (\<lambda>h p. int (length h) \<le> p) ''abc'' = Some 3 \<and>
   (\<exists>p. proof_of_work (\<lambda>h p. int (length h) \<le> p) ''abc'' = Some p \<and> 0 \<le> p \<and>
      (\<lambda>h p. int (length h) \<le> p) ''abc'' p \<and>
      (\<forall>q. 0 \<le> q \<and> q < p \<longrightarrow> \<not> (\<lambda>h p. int (length h) \<le> p) ''abc'' q))"
  using proof_of_work_least [of 7 "\<lambda>h p. int (length h) \<le> p" "''abc''"]
  by (simp add: proof_of_work_def proof_search.simps)

end
